theory Spec2Isabelle
  imports Complex_Main
begin

section \<open>JavaScript numbers\<close>

text \<open>
  A JavaScript number is modelled as \<open>NaN\<close> or a finite value \<open>Num r\<close>, read as the
  real number \<open>r\<close> that the double denotes. Arithmetic on finite values is exact real
  arithmetic: binary64 rounding, overflow to \<open>Infinity\<close> and the sign of zero are not
  part of the model. \<open>NaN\<close> is kept because \<open>Math.pow\<close> produces it from finite
  arguments and because every comparison with it is false.
  The properties that rounding decides (strict monotonicity of the blur, and the blur
  of two equal eyes) are stated over the second model of numbers, section
  \<open>Binary64 arithmetic\<close>, where every operation rounds to the nearest double.
\<close>

datatype number = NaN | Num real

fun num_add :: "number \<Rightarrow> number \<Rightarrow> number" where
  "num_add (Num a) (Num b) = Num (a + b)"
| "num_add _ _ = NaN"

fun num_sub :: "number \<Rightarrow> number \<Rightarrow> number" where
  "num_sub (Num a) (Num b) = Num (a - b)"
| "num_sub _ _ = NaN"

fun num_mul :: "number \<Rightarrow> number \<Rightarrow> number" where
  "num_mul (Num a) (Num b) = Num (a * b)"
| "num_mul _ _ = NaN"

text \<open>\<open>a === b\<close>, \<open>a > b\<close> and \<open>a < b\<close> on numbers: false as soon as one side is \<open>NaN\<close>.\<close>

fun strict_eq :: "number \<Rightarrow> number \<Rightarrow> bool" where
  "strict_eq (Num a) (Num b) = (a = b)"
| "strict_eq _ _ = False"

fun num_gt :: "number \<Rightarrow> number \<Rightarrow> bool" where
  "num_gt (Num a) (Num b) = (a > b)"
| "num_gt _ _ = False"

fun num_lt :: "number \<Rightarrow> number \<Rightarrow> bool" where
  "num_lt (Num a) (Num b) = (a < b)"
| "num_lt _ _ = False"

text \<open>
  \<open>Math.pow(base, exponent)\<close> for a finite exponent that is positive and not an
  integer, which is how the program calls it (the exponent is always the constant
  \<open>BLUR_EXPONENT\<close>): a \<open>NaN\<close> base and a negative base give \<open>NaN\<close>, a zero base
  gives zero, a positive base gives the real power. A \<open>NaN\<close> exponent gives \<open>NaN\<close>.
\<close>

fun Math_pow :: "number \<Rightarrow> number \<Rightarrow> number" where
  "Math_pow (Num x) (Num y) = (if x < 0 then NaN else Num (x powr y))"
| "Math_pow _ _ = NaN"

section \<open>Configuration\<close>

definition FALLBACK_VIDEO_URL :: string where
  "FALLBACK_VIDEO_URL = ''./14903546_3840_2160_25fps.mp4''"

definition DOMINANT_WEIGHT :: number where
  "DOMINANT_WEIGHT = Num 0.65"

definition BLUR_BASE :: number where
  "BLUR_BASE = Num 1.4"

definition BLUR_EXPONENT :: number where
  "BLUR_EXPONENT = Num 1.1"

section \<open>Blur model\<close>

text \<open>\<open>calculateBlur(diopters)\<close>.\<close>

definition calculateBlur :: "number \<Rightarrow> number" where
  "calculateBlur diopters =
     (if strict_eq diopters (Num 0) then Num 0
      else num_mul BLUR_BASE (Math_pow diopters BLUR_EXPONENT))"

text \<open>
  The specification's blur model, over the reals, as its section 4.1 words it. These
  two definitions are the reference that the program's functions are compared with.
\<close>

definition computeMonocularBlur :: "real \<Rightarrow> real" where
  "computeMonocularBlur diopters = (if diopters = 0 then 0 else 1.4 * diopters powr 1.1)"

definition computeBinocularBlur :: "real \<Rightarrow> real \<Rightarrow> bool \<Rightarrow> real" where
  "computeBinocularBlur left right isDominantLeft =
     (let dominant = (if isDominantLeft then left else right);
          nonDominant = (if isDominantLeft then right else left);
          weighted = dominant * 0.65 + nonDominant * 0.35
      in computeMonocularBlur weighted)"

section \<open>Number formatting\<close>

text \<open>The decimal digits of a natural number, most significant first.\<close>

definition digit :: "nat \<Rightarrow> char" where
  "digit n = ''0123456789'' ! n"

fun digits :: "nat \<Rightarrow> string" where
  "digits n = (if n < 10 then [digit n] else digits (n div 10) @ [digit (n mod 10)])"

declare digits.simps [simp del]

text \<open>
  \<open>Number.prototype.toFixed(fractionDigits)\<close>, following ECMAScript: the sign is split
  off, a magnitude of at least \<open>10^21\<close> is handed to the engine's \<open>Number::toString\<close>
  (exponent notation, whose digits depend on the binary64 encoding; it is the parameter
  \<open>toString\<close>), and below that \<open>n\<close> is the integer nearest to \<open>x * 10^f\<close>, the larger
  one on a tie, written with at least \<open>f + 1\<close> digits and a point before the last \<open>f\<close>.
\<close>

definition toFixed :: "(real \<Rightarrow> string) \<Rightarrow> number \<Rightarrow> nat \<Rightarrow> string" where
  "toFixed toString v f =
     (case v of
        NaN \<Rightarrow> ''NaN''
      | Num x0 \<Rightarrow>
          let s = (if x0 < 0 then ''-'' else '''');
              x = \<bar>x0\<bar>
          in if x \<ge> 10 ^ 21 then s @ toString x
             else
               let n = nat \<lfloor>x * 10 ^ f + 1 / 2\<rfloor>;
                   m = (if n = 0 then ''0'' else digits n);
                   m = (if f \<noteq> 0 then
                          (let k = length m;
                               m = (if k \<le> f then replicate (f + 1 - k) (CHR ''0'') @ m else m);
                               k = (if k \<le> f then f + 1 else k)
                           in take (k - f) m @ ''.'' @ drop (k - f) m)
                        else m)
               in s @ m)"

text \<open>
  The shape \<open>-X.XX\<close>: a minus sign, one or more digits, a point, two digits.
\<close>

definition is_digit :: "char \<Rightarrow> bool" where
  "is_digit c = (c \<in> set ''0123456789'')"

fun is_fraction2 :: "string \<Rightarrow> bool" where
  "is_fraction2 [p, a, b] = (p = CHR ''.'' \<and> is_digit a \<and> is_digit b)"
| "is_fraction2 _ = False"

fun is_minus_fixed2 :: "string \<Rightarrow> bool" where
  "is_minus_fixed2 [] = False"
| "is_minus_fixed2 (c # rest) =
     (c = CHR ''-'' \<and> 4 \<le> length rest
      \<and> list_all is_digit (take (length rest - 3) rest)
      \<and> is_fraction2 (drop (length rest - 3) rest))"

section \<open>The page state\<close>

text \<open>
  The host: what the browser supplies and the script only observes. \<open>mediaDevices\<close> is
  the state of \<open>navigator.mediaDevices\<close> together with the way the promise returned by
  \<open>getUserMedia\<close> settles; \<open>Number_toString\<close> is the engine's exponent notation used by
  \<open>toFixed\<close>; \<open>context2d\<close> says whether \<open>canvas.getContext('2d')\<close> returns a context.
\<close>

datatype outcome = Granted nat | Rejected string | Unsettled

datatype mediaDevices = NoMediaDevices | NoGetUserMedia | GetUserMedia outcome

record host =
  mediaDevices :: mediaDevices
  Number_toString :: "real \<Rightarrow> string"
  context2d :: bool

text \<open>
  Video and canvas elements live in two stores, addressed by their creation index.
  A video element carries what \<open>createVideoElement\<close> and \<open>makeHiddenVideo\<close> set, the
  media state the script reads, and its registered listeners.
\<close>

datatype source = Stream nat | Url string

datatype media_event = Loadedmetadata | Loadeddata | Playing | Error

datatype listener =
    SetupCanvas
  | Fallback_video1_onloadeddata
  | Fallback_video1_onerror
  | Fallback_video2_onloadeddata
  | Fallback_video2_onerror

record video =
  srcObject :: "nat option"
  src :: string
  readyState :: nat
  videoWidth :: nat
  videoHeight :: nat
  hiddenStyle :: bool
  listeners :: "(media_event \<times> listener) list"

text \<open>
  A canvas records its size and, in \<open>painted\<close>, the \<open>blurAmount\<close> of every
  \<open>drawImage\<close> made on it, oldest first.
\<close>

record canvas =
  canvas_width :: nat
  canvas_height :: nat
  painted :: "number list"

text \<open>The children of a panel that the script looks for or inserts.\<close>

datatype node =
    LoadingState string
  | VideoNode nat
  | CanvasNode nat
  | SourceIndicator bool

datatype panel_id = PanelClear | PanelCombined

text \<open>Callbacks handed to \<open>requestAnimationFrame\<close>: the two closures of the script.\<close>

datatype callback = Render nat nat | SetupCanvasPoll nat

text \<open>
  The module-level variables (\<open>mediaStream\<close> to \<open>animationFrameId\<close>), the closure
  variable \<open>canvasSetupDone\<close> of \<open>initCamera\<close>, the parts of the document the script
  writes, and the browser's list of animation frame callbacks with its handle counter.
  \<open>getUserMediaCalls\<close> counts the calls of \<open>getUserMedia\<close>; \<open>stoppedStreams\<close> lists
  the streams whose tracks were stopped.
\<close>

record page =
  mediaStream :: "nat option"
  leftDiopters :: number
  rightDiopters :: number
  isDominantLeft :: bool
  animationFrameId :: "nat option"
  canvasSetupDone :: bool
  wired :: bool
  diopterLeftDisplay :: string
  diopterRightDisplay :: string
  dominantLeftActive :: bool
  dominantRightActive :: bool
  sourceStatus :: string
  panelClear :: "node list"
  panelCombined :: "node list"
  videos :: "video list"
  canvases :: "canvas list"
  frameCallbacks :: "(nat \<times> callback) list"
  handleCounter :: nat
  getUserMediaCalls :: nat
  stoppedStreams :: "nat list"

text \<open>
  The state when the script starts: the initial values of its variables, no element
  created, nothing scheduled. The markup is not among the sources; each panel is
  taken to hold the loading placeholder that \<open>setupPanel\<close> removes.
\<close>

definition initial_page :: page where
  "initial_page =
     \<lparr> mediaStream = None, leftDiopters = Num 0, rightDiopters = Num 0,
       isDominantLeft = True, animationFrameId = None, canvasSetupDone = False,
       wired = False, diopterLeftDisplay = [], diopterRightDisplay = [],
       dominantLeftActive = True, dominantRightActive = False, sourceStatus = [],
       panelClear = [LoadingState ''Loading''], panelCombined = [LoadingState ''Loading''],
       videos = [], canvases = [], frameCallbacks = [], handleCounter = 0,
       getUserMediaCalls = 0, stoppedStreams = [] \<rparr>"

text \<open>
  A host for evaluating the model at concrete inputs: a 2d context is available, and
  the exponent notation is a fixed stand-in, used only from \<open>10^21\<close> upwards.
\<close>

definition host_with :: "mediaDevices \<Rightarrow> host" where
  "host_with md = \<lparr> mediaDevices = md, Number_toString = (\<lambda>x. ''1e+21''), context2d = True \<rparr>"

section \<open>Binocular blur\<close>

text \<open>
  \<open>calculateBinocularBlur()\<close> reads the three module variables. Its local constant
  \<open>weightedDiopters\<close> is a definition of its own.
\<close>

definition weightedDiopters :: "page \<Rightarrow> number" where
  "weightedDiopters s =
     (let dominantDiopters = (if isDominantLeft s then leftDiopters s else rightDiopters s);
          nonDominantDiopters = (if isDominantLeft s then rightDiopters s else leftDiopters s)
      in num_add (num_mul dominantDiopters DOMINANT_WEIGHT)
                 (num_mul nonDominantDiopters (num_sub (Num 1) DOMINANT_WEIGHT)))"

definition calculateBinocularBlur :: "page \<Rightarrow> number" where
  "calculateBinocularBlur s = calculateBlur (weightedDiopters s)"

section \<open>Display text\<close>

datatype display = DiopterLeftDisplay | DiopterRightDisplay

definition set_textContent :: "display \<Rightarrow> string \<Rightarrow> page \<Rightarrow> page" where
  "set_textContent d txt s =
     (case d of
        DiopterLeftDisplay \<Rightarrow> s\<lparr>diopterLeftDisplay := txt\<rparr>
      | DiopterRightDisplay \<Rightarrow> s\<lparr>diopterRightDisplay := txt\<rparr>)"

definition textContent :: "display \<Rightarrow> page \<Rightarrow> string" where
  "textContent d s =
     (case d of
        DiopterLeftDisplay \<Rightarrow> diopterLeftDisplay s
      | DiopterRightDisplay \<Rightarrow> diopterRightDisplay s)"

text \<open>\<open>updateEyeDisplay(display, diopters)\<close>.\<close>

definition updateEyeDisplay :: "host \<Rightarrow> display \<Rightarrow> number \<Rightarrow> page \<Rightarrow> page" where
  "updateEyeDisplay h d diopters s =
     set_textContent d
       (if num_gt diopters (Num 0) then ''-'' @ toFixed (Number_toString h) diopters 2
        else ''0.00'') s"

section \<open>Elements and panels\<close>

definition modify_video :: "nat \<Rightarrow> (video \<Rightarrow> video) \<Rightarrow> page \<Rightarrow> page" where
  "modify_video i f s =
     (if i < length (videos s) then s\<lparr>videos := (videos s)[i := f (videos s ! i)]\<rparr> else s)"

definition video_readyState :: "page \<Rightarrow> nat \<Rightarrow> nat" where
  "video_readyState s i = (if i < length (videos s) then readyState (videos s ! i) else 0)"

definition video_videoWidth :: "page \<Rightarrow> nat \<Rightarrow> nat" where
  "video_videoWidth s i = (if i < length (videos s) then videoWidth (videos s ! i) else 0)"

definition video_videoHeight :: "page \<Rightarrow> nat \<Rightarrow> nat" where
  "video_videoHeight s i = (if i < length (videos s) then videoHeight (videos s ! i) else 0)"

text \<open>
  \<open>createVideoElement(src, isStream)\<close>: the constructor of the argument stands for
  \<open>isStream\<close>. The new element's index in the store is returned with the state.
\<close>

definition createVideoElement :: "source \<Rightarrow> page \<Rightarrow> nat \<times> page" where
  "createVideoElement source s =
     (let video = \<lparr> srcObject = (case source of Stream m \<Rightarrow> Some m | Url u \<Rightarrow> None),
                    src = (case source of Stream m \<Rightarrow> [] | Url u \<Rightarrow> u),
                    readyState = 0, videoWidth = 0, videoHeight = 0,
                    hiddenStyle = False, listeners = [] \<rparr>
      in (length (videos s), s\<lparr>videos := videos s @ [video]\<rparr>))"

definition makeHiddenVideo :: "nat \<Rightarrow> page \<Rightarrow> page" where
  "makeHiddenVideo video s = modify_video video (\<lambda>v. v\<lparr>hiddenStyle := True\<rparr>) s"

text \<open>\<open>document.createElement('canvas')\<close> followed by the two size assignments.\<close>

definition createCanvas :: "nat \<Rightarrow> nat \<Rightarrow> page \<Rightarrow> nat \<times> page" where
  "createCanvas w ht s =
     (length (canvases s),
      s\<lparr>canvases := canvases s @ [\<lparr> canvas_width = w, canvas_height = ht, painted = [] \<rparr>]\<rparr>)"

text \<open>
  \<open>applySimpleBlur(video, canvas, blurAmount)\<close>: nothing without a 2d context, else
  one \<open>drawImage\<close> under the filter \<open>blur(blurAmount px)\<close>.
\<close>

definition applySimpleBlur :: "host \<Rightarrow> nat \<Rightarrow> nat \<Rightarrow> number \<Rightarrow> page \<Rightarrow> page" where
  "applySimpleBlur h video canvas blurAmount s =
     (if \<not> context2d h then s
      else if canvas < length (canvases s) then
        s\<lparr>canvases := (canvases s)[canvas :=
             (canvases s ! canvas)\<lparr>painted := painted (canvases s ! canvas) @ [blurAmount]\<rparr>]\<rparr>
      else s)"

fun is_loading :: "node \<Rightarrow> bool" where
  "is_loading (LoadingState _) = True"
| "is_loading _ = False"

fun is_canvas :: "node \<Rightarrow> bool" where
  "is_canvas (CanvasNode _) = True"
| "is_canvas _ = False"

fun is_video :: "node \<Rightarrow> bool" where
  "is_video (VideoNode _) = True"
| "is_video _ = False"

fun is_indicator :: "node \<Rightarrow> bool" where
  "is_indicator (SourceIndicator _) = True"
| "is_indicator _ = False"

fun remove_first :: "('a \<Rightarrow> bool) \<Rightarrow> 'a list \<Rightarrow> 'a list" where
  "remove_first P [] = []"
| "remove_first P (x # xs) = (if P x then xs else x # remove_first P xs)"

fun replace_first :: "('a \<Rightarrow> bool) \<Rightarrow> 'a \<Rightarrow> 'a list \<Rightarrow> 'a list" where
  "replace_first P y [] = []"
| "replace_first P y (x # xs) = (if P x then y # xs else x # replace_first P y xs)"

definition panel_children :: "panel_id \<Rightarrow> page \<Rightarrow> node list" where
  "panel_children p s = (case p of PanelClear \<Rightarrow> panelClear s | PanelCombined \<Rightarrow> panelCombined s)"

definition set_panel_children :: "panel_id \<Rightarrow> node list \<Rightarrow> page \<Rightarrow> page" where
  "set_panel_children p ns s =
     (case p of PanelClear \<Rightarrow> s\<lparr>panelClear := ns\<rparr> | PanelCombined \<Rightarrow> s\<lparr>panelCombined := ns\<rparr>)"

text \<open>
  \<open>setupPanel(panel, content, isCamera, keepHiddenVideo)\<close>: drop the loading
  placeholder and an existing canvas; unless the hidden video is kept, unload and drop
  an existing video; put \<open>content\<close> first; set the source indicator, appending one when
  the panel has none.
\<close>

definition setupPanel :: "panel_id \<Rightarrow> node \<Rightarrow> bool \<Rightarrow> bool \<Rightarrow> page \<Rightarrow> page" where
  "setupPanel panel content isCamera keepHiddenVideo s =
     (let p1 = remove_first is_loading (panel_children panel s);
          p2 = remove_first is_canvas p1;
          existingVideo = (if keepHiddenVideo then None else find is_video p2);
          p3 = (case existingVideo of None \<Rightarrow> p2 | Some n \<Rightarrow> remove_first is_video p2);
          s1 = (case existingVideo of
                  Some (VideoNode i) \<Rightarrow> modify_video i (\<lambda>v. v\<lparr>srcObject := None, src := []\<rparr>) s
                | _ \<Rightarrow> s);
          p4 = content # p3;
          p5 = (if list_ex is_indicator p4
                then replace_first is_indicator (SourceIndicator isCamera) p4
                else p4 @ [SourceIndicator isCamera])
      in set_panel_children panel p5 s1)"

text \<open>\<open>handleVideoError(panel, panelName)\<close> replaces the panel's content.\<close>

definition handleVideoError :: "panel_id \<Rightarrow> string \<Rightarrow> page \<Rightarrow> page" where
  "handleVideoError panel panelName s =
     set_panel_children panel [LoadingState ''Video failed to load''] s"

section \<open>Animation frames\<close>

text \<open>
  \<open>requestAnimationFrame\<close> increments the handle counter, appends the callback under
  the new handle and returns the handle; \<open>cancelAnimationFrame\<close> removes the entry.
\<close>

definition requestAnimationFrame :: "callback \<Rightarrow> page \<Rightarrow> nat \<times> page" where
  "requestAnimationFrame cb s =
     (let handle = handleCounter s + 1
      in (handle, s\<lparr>handleCounter := handle,
                     frameCallbacks := frameCallbacks s @ [(handle, cb)]\<rparr>))"

definition cancelAnimationFrame :: "nat \<Rightarrow> page \<Rightarrow> page" where
  "cancelAnimationFrame handle s =
     s\<lparr>frameCallbacks := filter (\<lambda>(k, cb). k \<noteq> handle) (frameCallbacks s)\<rparr>"

definition HAVE_CURRENT_DATA :: nat where
  "HAVE_CURRENT_DATA = 2"

text \<open>The closure \<open>render\<close> of \<open>startBlurRender(video, canvas)\<close>, and \<open>startBlurRender\<close>.\<close>

definition render :: "host \<Rightarrow> nat \<Rightarrow> nat \<Rightarrow> page \<Rightarrow> page" where
  "render h video canvas s =
     (let s1 = (if video_readyState s video \<ge> HAVE_CURRENT_DATA
                then (let blurPx = calculateBinocularBlur s
                      in applySimpleBlur h video canvas blurPx s)
                else s);
          (handle, s2) = requestAnimationFrame (Render video canvas) s1
      in s2\<lparr>animationFrameId := Some handle\<rparr>)"

definition startBlurRender :: "host \<Rightarrow> nat \<Rightarrow> nat \<Rightarrow> page \<Rightarrow> page" where
  "startBlurRender h video canvas s = render h video canvas s"

section \<open>Source selection\<close>

text \<open>The closure \<open>setupCanvas\<close> of \<open>initCamera\<close>, over its \<open>video1\<close>.\<close>

definition setupCanvas :: "host \<Rightarrow> nat \<Rightarrow> page \<Rightarrow> page" where
  "setupCanvas h video1 s =
     (if canvasSetupDone s then s
      else if video_videoWidth s video1 > 0 \<and> video_videoHeight s video1 > 0 then
        (let s1 = s\<lparr>canvasSetupDone := True\<rparr>;
             (canvas, s2) = createCanvas (video_videoWidth s1 video1) (video_videoHeight s1 video1) s1;
             s3 = setupPanel PanelCombined (CanvasNode canvas) True False s2
         in startBlurRender h video1 canvas s3)
      else snd (requestAnimationFrame (SetupCanvasPoll video1) s))"

text \<open>\<open>useFallbackVideo()\<close>.\<close>

definition useFallbackVideo :: "page \<Rightarrow> page" where
  "useFallbackVideo s =
     (let (video1, s1) = createVideoElement (Url FALLBACK_VIDEO_URL) s;
          (video2, s2) = createVideoElement (Url FALLBACK_VIDEO_URL) s1;
          s3 = modify_video video1 (\<lambda>v. v\<lparr>listeners := listeners v @
                 [(Loadeddata, Fallback_video1_onloadeddata), (Error, Fallback_video1_onerror)]\<rparr>) s2;
          s4 = makeHiddenVideo video2 s3;
          s5 = s4\<lparr>panelCombined := panelCombined s4 @ [VideoNode video2]\<rparr>;
          s6 = modify_video video2 (\<lambda>v. v\<lparr>listeners := listeners v @
                 [(Loadeddata, Fallback_video2_onloadeddata), (Error, Fallback_video2_onerror)]\<rparr>) s5
      in s6\<lparr>sourceStatus := ''Source: Sample Video''\<rparr>)"

text \<open>
  \<open>initCamera()\<close>, with the \<open>await\<close> resolved by the host's outcome. Without
  \<open>mediaDevices\<close> or \<open>getUserMedia\<close> the call expression throws inside the \<open>try\<close>; a
  rejected promise throws at the \<open>await\<close>; both reach the \<open>catch\<close>. A promise that never
  settles leaves the routine suspended.
\<close>

definition initCamera :: "host \<Rightarrow> page \<Rightarrow> page" where
  "initCamera h s =
     (case mediaDevices h of
        NoMediaDevices \<Rightarrow> useFallbackVideo s
      | NoGetUserMedia \<Rightarrow> useFallbackVideo s
      | GetUserMedia outcome \<Rightarrow>
          (let s0 = s\<lparr>getUserMediaCalls := getUserMediaCalls s + 1\<rparr>
           in case outcome of
                Unsettled \<Rightarrow> s0
              | Rejected err \<Rightarrow> useFallbackVideo s0
              | Granted stream \<Rightarrow>
                  (let s1 = s0\<lparr>mediaStream := Some stream\<rparr>;
                       (video1, s2) = createVideoElement (Stream stream) s1;
                       s3 = setupPanel PanelClear (VideoNode video1) True False s2;
                       s4 = modify_video video1 (\<lambda>v. v\<lparr>listeners := listeners v @
                              [(Loadedmetadata, SetupCanvas), (Loadeddata, SetupCanvas),
                               (Playing, SetupCanvas)]\<rparr>) s3
                   in s4\<lparr>sourceStatus := ''Source: Device Camera''\<rparr>)))"

text \<open>
  The ways camera acquisition fails: the interface is absent (no \<open>mediaDevices\<close>, or
  no \<open>getUserMedia\<close> on it), or the promise is rejected (permission denied, no device).
\<close>

fun acquisition_fails :: "mediaDevices \<Rightarrow> bool" where
  "acquisition_fails NoMediaDevices = True"
| "acquisition_fails NoGetUserMedia = True"
| "acquisition_fails (GetUserMedia (Rejected err)) = True"
| "acquisition_fails (GetUserMedia (Granted stream)) = False"
| "acquisition_fails (GetUserMedia Unsettled) = False"

section \<open>Controls, initialisation and teardown\<close>

definition updateBinocularVision :: "page \<Rightarrow> page" where
  "updateBinocularVision s = s"

definition setDominantEye :: "bool \<Rightarrow> page \<Rightarrow> page" where
  "setDominantEye isLeft s =
     updateBinocularVision
       (s\<lparr>isDominantLeft := isLeft, dominantLeftActive := isLeft,
          dominantRightActive := \<not> isLeft\<rparr>)"

text \<open>
  \<open>init()\<close>: both displays are reset, the four control listeners are registered
  (\<open>wired\<close>), and the source is chosen by
  \<open>navigator.mediaDevices?.getUserMedia ? initCamera() : useFallbackVideo()\<close>.
\<close>

definition init :: "host \<Rightarrow> page \<Rightarrow> page" where
  "init h s =
     (let s1 = updateEyeDisplay h DiopterLeftDisplay (Num 0) s;
          s2 = updateEyeDisplay h DiopterRightDisplay (Num 0) s1;
          s3 = s2\<lparr>wired := True\<rparr>
      in case mediaDevices h of
           GetUserMedia outcome \<Rightarrow> initCamera h s3
         | _ \<Rightarrow> useFallbackVideo s3)"

text \<open>The \<open>beforeunload\<close> listener; \<open>null\<close> and the handle 0 are falsy.\<close>

definition beforeunload :: "page \<Rightarrow> page" where
  "beforeunload s =
     (let s1 = (case animationFrameId s of
                  None \<Rightarrow> s
                | Some handle \<Rightarrow> if handle \<noteq> 0 then cancelAnimationFrame handle s else s)
      in case mediaStream s1 of
           None \<Rightarrow> s1
         | Some m \<Rightarrow> s1\<lparr>stoppedStreams := stoppedStreams s1 @ [m]\<rparr>)"

section \<open>Events\<close>

text \<open>
  What can happen to the page once the script has loaded. A slider event carries
  \<open>parseFloat(e.target.value)\<close>. \<open>MediaState\<close> is the media pipeline changing a video's
  \<open>readyState\<close>, \<open>videoWidth\<close> and \<open>videoHeight\<close>; \<open>MediaEvent\<close> is an event fired at a
  video; \<open>AnimationFrame\<close> is the browser running the animation frame callbacks.
\<close>

datatype event =
    SliderLeftInput number
  | SliderRightInput number
  | DominantLeftClick
  | DominantRightClick
  | MediaState nat nat nat nat
  | MediaEvent nat media_event
  | AnimationFrame
  | BeforeUnload

fun run_listener :: "host \<Rightarrow> nat \<Rightarrow> listener \<Rightarrow> page \<Rightarrow> page" where
  "run_listener h v SetupCanvas s = setupCanvas h v s"
| "run_listener h v Fallback_video1_onloadeddata s =
     setupPanel PanelClear (VideoNode v) False False s"
| "run_listener h v Fallback_video1_onerror s = handleVideoError PanelClear ''Clear'' s"
| "run_listener h v Fallback_video2_onloadeddata s =
     (let (canvas, s1) = createCanvas (video_videoWidth s v) (video_videoHeight s v) s;
          s2 = setupPanel PanelCombined (CanvasNode canvas) False True s1
      in startBlurRender h v canvas s2)"
| "run_listener h v Fallback_video2_onerror s = handleVideoError PanelCombined ''Combined'' s"

fun run_listeners :: "host \<Rightarrow> nat \<Rightarrow> listener list \<Rightarrow> page \<Rightarrow> page" where
  "run_listeners h v [] s = s"
| "run_listeners h v (l # ls) s = run_listeners h v ls (run_listener h v l s)"

definition dispatch :: "host \<Rightarrow> nat \<Rightarrow> media_event \<Rightarrow> page \<Rightarrow> page" where
  "dispatch h v ev s =
     (if v < length (videos s)
      then run_listeners h v (map snd (filter (\<lambda>(e, l). e = ev) (listeners (videos s ! v)))) s
      else s)"

fun invoke :: "host \<Rightarrow> callback \<Rightarrow> page \<Rightarrow> page" where
  "invoke h (Render video canvas) s = render h video canvas s"
| "invoke h (SetupCanvasPoll video1) s = setupCanvas h video1 s"

text \<open>
  Running the animation frame callbacks: the handles present when the frame starts
  are visited in order; a handle still in the list is removed and its callback invoked.
  Callbacks requested during the frame wait for the next one.
\<close>

fun runCallbacks :: "host \<Rightarrow> nat list \<Rightarrow> page \<Rightarrow> page" where
  "runCallbacks h [] s = s"
| "runCallbacks h (k # ks) s =
     (case map_of (frameCallbacks s) k of
        None \<Rightarrow> runCallbacks h ks s
      | Some cb \<Rightarrow> runCallbacks h ks (invoke h cb (cancelAnimationFrame k s)))"

definition animationFrame :: "host \<Rightarrow> page \<Rightarrow> page" where
  "animationFrame h s = runCallbacks h (map fst (frameCallbacks s)) s"

fun step :: "host \<Rightarrow> event \<Rightarrow> page \<Rightarrow> page" where
  "step h (SliderLeftInput v) s =
     (if wired s then updateEyeDisplay h DiopterLeftDisplay v (s\<lparr>leftDiopters := v\<rparr>) else s)"
| "step h (SliderRightInput v) s =
     (if wired s then updateEyeDisplay h DiopterRightDisplay v (s\<lparr>rightDiopters := v\<rparr>) else s)"
| "step h DominantLeftClick s = (if wired s then setDominantEye True s else s)"
| "step h DominantRightClick s = (if wired s then setDominantEye False s else s)"
| "step h (MediaState v rs w ht) s =
     modify_video v (\<lambda>x. x\<lparr>readyState := rs, videoWidth := w, videoHeight := ht\<rparr>) s"
| "step h (MediaEvent v ev) s = dispatch h v ev s"
| "step h AnimationFrame s = animationFrame h s"
| "step h BeforeUnload s = beforeunload s"

fun run :: "host \<Rightarrow> event list \<Rightarrow> page \<Rightarrow> page" where
  "run h [] s = s"
| "run h (e # es) s = run h es (step h e s)"

section \<open>Predicates on events and states\<close>

text \<open>The events whose listeners assign one of the three variables the blur reads.\<close>

fun writes_blur_inputs :: "event \<Rightarrow> bool" where
  "writes_blur_inputs (SliderLeftInput v) = True"
| "writes_blur_inputs (SliderRightInput v) = True"
| "writes_blur_inputs DominantLeftClick = True"
| "writes_blur_inputs DominantRightClick = True"
| "writes_blur_inputs _ = False"

text \<open>
  The browser's side of the callback list: handles are distinct and none exceeds the
  counter. \<open>render_pending\<close>: some \<open>render\<close> closure is scheduled for the next frame.
  \<open>streaming\<close>: the render loop is running.
\<close>

fun is_render :: "nat \<times> callback \<Rightarrow> bool" where
  "is_render (k, Render video canvas) = True"
| "is_render (k, SetupCanvasPoll video1) = False"

definition handles_wf :: "page \<Rightarrow> bool" where
  "handles_wf s =
     (distinct (map fst (frameCallbacks s))
      \<and> list_all (\<lambda>(k, cb). k \<le> handleCounter s) (frameCallbacks s))"

definition render_pending :: "page \<Rightarrow> bool" where
  "render_pending s = list_ex is_render (frameCallbacks s)"

definition streaming :: "page \<Rightarrow> bool" where
  "streaming s = (handles_wf s \<and> render_pending s)"

text \<open>
  \<open>grows s s'\<close>: from \<open>s\<close> to \<open>s'\<close> the callback list was only appended to, with
  fresh distinct handles taken from the counter.
\<close>

definition grows :: "page \<Rightarrow> page \<Rightarrow> bool" where
  "grows s s' =
     (handleCounter s \<le> handleCounter s'
      \<and> (\<exists>new. frameCallbacks s' = frameCallbacks s @ new
             \<and> distinct (map fst new)
             \<and> (\<forall>k \<in> set (map fst new). handleCounter s < k \<and> k \<le> handleCounter s')))"

text \<open>
  A concrete page for evaluation: no \<open>mediaDevices\<close>, so \<open>init\<close> takes the fallback;
  then the hidden video reports data at 640 by 360 and fires \<open>loadeddata\<close>.
\<close>

definition fallback_streaming :: page where
  "fallback_streaming =
     run (host_with NoMediaDevices) [MediaState 1 4 640 360, MediaEvent 1 Loadeddata]
       (init (host_with NoMediaDevices) initial_page)"

section \<open>Binary64 arithmetic\<close>

text \<open>
  The numbers of the program are IEEE 754 binary64 values. A \<open>double\<close> is a finite
  value, read as the real number it denotes, one of the two infinities (\<open>Infinite True\<close>
  is \<open>+Infinity\<close>) or \<open>NaN\<close>. The two zeros are one value: the program never
  divides, and no operation below tells them apart.
\<close>

datatype double = Finite real | Infinite bool | Nan

text \<open>The nearest integer, a tie going to the even one.\<close>

definition rne :: "real \<Rightarrow> int" where
  "rne y =
     (let f = \<lfloor>y\<rfloor>; t = y - of_int f
      in if t < 1 / 2 then f else if 1 / 2 < t then f + 1 else if even f then f else f + 1)"

text \<open>
  The exponent of the binade of \<open>x\<close>; below the smallest normal number \<open>2^-1022\<close> the
  subnormal numbers keep the exponent -1022.
\<close>

definition binade :: "real \<Rightarrow> int" where
  "binade x = max \<lfloor>log 2 \<bar>x\<bar>\<rfloor> (- 1022)"

text \<open>
  Rounding of a real number to binary64, to nearest with ties to even: the result is
  the nearest multiple of the unit in the last place of the binade of \<open>x\<close>, which
  leaves 53 significant bits, and is an infinity once that multiple reaches \<open>2^1024\<close>.
  Every arithmetic operation of the language returns the rounding of its exact result,
  and a decimal literal of the source denotes the rounding of its decimal value.
\<close>

definition round64 :: "real \<Rightarrow> double" where
  "round64 x =
     (if x = 0 then Finite 0
      else let u = 2 powi (binade x - 52);
               r = u * of_int (rne (x / u))
           in if 2 ^ 1024 \<le> \<bar>r\<bar> then Infinite (0 < x) else Finite r)"

text \<open>The multiple that \<open>round64\<close> tests for overflow.\<close>

definition unbounded64 :: "real \<Rightarrow> real" where
  "unbounded64 x = 2 powi (binade x - 52) * of_int (rne (x / 2 powi (binade x - 52)))"

text \<open>The operators \<open>+\<close>, \<open>-\<close> and \<open>*\<close> on numbers.\<close>

fun add64 :: "double \<Rightarrow> double \<Rightarrow> double" where
  "add64 (Finite a) (Finite b) = round64 (a + b)"
| "add64 (Finite a) (Infinite t) = Infinite t"
| "add64 (Infinite s) (Finite b) = Infinite s"
| "add64 (Infinite s) (Infinite t) = (if s = t then Infinite s else Nan)"
| "add64 _ _ = Nan"

fun sub64 :: "double \<Rightarrow> double \<Rightarrow> double" where
  "sub64 (Finite a) (Finite b) = round64 (a - b)"
| "sub64 (Finite a) (Infinite t) = Infinite (\<not> t)"
| "sub64 (Infinite s) (Finite b) = Infinite s"
| "sub64 (Infinite s) (Infinite t) = (if s = t then Nan else Infinite s)"
| "sub64 _ _ = Nan"

fun mul64 :: "double \<Rightarrow> double \<Rightarrow> double" where
  "mul64 (Finite a) (Finite b) = round64 (a * b)"
| "mul64 (Finite a) (Infinite t) = (if a = 0 then Nan else Infinite (t = (0 < a)))"
| "mul64 (Infinite s) (Finite b) = (if b = 0 then Nan else Infinite (s = (0 < b)))"
| "mul64 (Infinite s) (Infinite t) = Infinite (s = t)"
| "mul64 _ _ = Nan"

text \<open>\<open>a === b\<close>, \<open>a < b\<close> and \<open>a <= b\<close> on numbers.\<close>

fun strict_eq64 :: "double \<Rightarrow> double \<Rightarrow> bool" where
  "strict_eq64 (Finite a) (Finite b) = (a = b)"
| "strict_eq64 (Infinite s) (Infinite t) = (s = t)"
| "strict_eq64 _ _ = False"



text \<open>
  \<open>Math.pow(base, exponent)\<close>, by the cases of the language's \<open>Number::exponentiate\<close>.
  Where the language leaves the precision of the result to the implementation (a
  finite non-zero base and a finite non-zero exponent), the result is taken to be the
  rounding of the real power, as for the arithmetic operators.
\<close>

definition is_odd_integer :: "real \<Rightarrow> bool" where
  "is_odd_integer y = (y \<in> \<int> \<and> odd \<lfloor>y\<rfloor>)"

fun pow64 :: "double \<Rightarrow> double \<Rightarrow> double" where
  "pow64 b Nan = Nan"
| "pow64 b (Finite y) =
     (if y = 0 then Finite 1
      else case b of
             Nan \<Rightarrow> Nan
           | Infinite s \<Rightarrow>
               (if 0 < y then Infinite (s \<or> \<not> is_odd_integer y) else Finite 0)
           | Finite x \<Rightarrow>
               (if x = 0 then (if 0 < y then Finite 0 else Infinite True)
                else if 0 < x then round64 (x powr y)
                else if y \<in> \<int> then round64 (x powi \<lfloor>y\<rfloor>)
                else Nan))"
| "pow64 b (Infinite t) =
     (case b of
        Nan \<Rightarrow> Nan
      | Infinite s \<Rightarrow> (if t then Infinite True else Finite 0)
      | Finite x \<Rightarrow>
          (if \<bar>x\<bar> = 1 then Nan
           else if (1 < \<bar>x\<bar>) = t then Infinite True else Finite 0))"

section \<open>The blur model on doubles\<close>

text \<open>The three numeric constants, as the doubles their literals denote.\<close>

definition DOMINANT_WEIGHT64 :: double where
  "DOMINANT_WEIGHT64 = round64 0.65"

definition BLUR_BASE64 :: double where
  "BLUR_BASE64 = round64 1.4"

definition BLUR_EXPONENT64 :: double where
  "BLUR_EXPONENT64 = round64 1.1"

text \<open>\<open>calculateBlur(diopters)\<close>.\<close>

definition calculateBlur64 :: "double \<Rightarrow> double" where
  "calculateBlur64 diopters =
     (if strict_eq64 diopters (Finite 0) then Finite 0
      else mul64 BLUR_BASE64 (pow64 diopters BLUR_EXPONENT64))"

text \<open>
  The three module variables that \<open>calculateBinocularBlur()\<close> reads, its local
  constant \<open>weightedDiopters\<close>, and the function.
\<close>

record variables64 =
  leftDiopters64 :: double
  rightDiopters64 :: double
  isDominantLeft64 :: bool

definition weightedDiopters64 :: "variables64 \<Rightarrow> double" where
  "weightedDiopters64 s =
     (let dominantDiopters = (if isDominantLeft64 s then leftDiopters64 s else rightDiopters64 s);
          nonDominantDiopters = (if isDominantLeft64 s then rightDiopters64 s else leftDiopters64 s)
      in add64 (mul64 dominantDiopters DOMINANT_WEIGHT64)
               (mul64 nonDominantDiopters (sub64 (Finite 1) DOMINANT_WEIGHT64)))"

definition calculateBinocularBlur64 :: "variables64 \<Rightarrow> double" where
  "calculateBinocularBlur64 s = calculateBlur64 (weightedDiopters64 s)"

section \<open>Properties of the blur model\<close>

lemma calculateBlur_Num:
  assumes "0 \<le> d"
  shows "calculateBlur (Num d) = Num (if d = 0 then 0 else 1.4 * d powr 1.1)"
  using assms by (simp add: calculateBlur_def BLUR_BASE_def BLUR_EXPONENT_def)

lemma weightedDiopters_Num:
  "weightedDiopters (s\<lparr>leftDiopters := Num l, rightDiopters := Num r, isDominantLeft := b\<rparr>)
     = Num ((if b then l else r) * 0.65 + (if b then r else l) * 0.35)"
  by (simp add: weightedDiopters_def DOMINANT_WEIGHT_def)

text \<open>
  Claim C1. For non-negative reals \<open>l\<close> (left) and \<open>r\<close> (right) and either value \<open>b\<close>
  of the dominance flag, \<open>calculateBinocularBlur\<close> on a state holding them weighs the
  dominant eye by 0.65 and the other by 0.35, the coefficient \<open>1 - DOMINANT_WEIGHT\<close>
  being exactly 0.35, and returns \<open>calculateBlur\<close> of the weighted value, which is the
  specification's \<open>computeBinocularBlur\<close>.
\<close>

theorem calculateBinocularBlur_reference:
  assumes "0 \<le> l" and "0 \<le> r"
  shows "num_sub (Num 1) DOMINANT_WEIGHT = Num 0.35
       \<and> weightedDiopters (s\<lparr>leftDiopters := Num l, rightDiopters := Num r, isDominantLeft := b\<rparr>)
           = Num ((if b then l else r) * 0.65 + (if b then r else l) * 0.35)
       \<and> calculateBinocularBlur (s\<lparr>leftDiopters := Num l, rightDiopters := Num r, isDominantLeft := b\<rparr>)
           = calculateBlur (Num ((if b then l else r) * 0.65 + (if b then r else l) * 0.35))
       \<and> calculateBinocularBlur (s\<lparr>leftDiopters := Num l, rightDiopters := Num r, isDominantLeft := b\<rparr>)
           = Num (computeBinocularBlur l r b)"
proof -
  let ?w = "(if b then l else r) * 0.65 + (if b then r else l) * 0.35"
  let ?s = "s\<lparr>leftDiopters := Num l, rightDiopters := Num r, isDominantLeft := b\<rparr>"
  have nd: "num_sub (Num 1) DOMINANT_WEIGHT = Num 0.35"
    by (simp add: DOMINANT_WEIGHT_def)
  have w: "weightedDiopters ?s = Num ?w"
    by (rule weightedDiopters_Num)
  have nonneg: "0 \<le> ?w"
    using assms by simp
  have mono: "calculateBlur (Num ?w) = Num (computeMonocularBlur ?w)"
    using calculateBlur_Num [OF nonneg] by (simp add: computeMonocularBlur_def)
  have spec: "computeBinocularBlur l r b = computeMonocularBlur ?w"
    by (simp add: computeBinocularBlur_def Let_def)
  show ?thesis
    using nd w mono spec by (simp add: calculateBinocularBlur_def)
qed

theorem calculateBinocularBlur_reference_witness:
  "(0::real) \<le> 3 \<and> (0::real) \<le> 1
   \<and> weightedDiopters (initial_page\<lparr>leftDiopters := Num 3, rightDiopters := Num 1, isDominantLeft := False\<rparr>)
       = Num 1.7
   \<and> calculateBinocularBlur (initial_page\<lparr>leftDiopters := Num 3, rightDiopters := Num 1, isDominantLeft := False\<rparr>)
       = Num (computeBinocularBlur 3 1 False)"
  using calculateBinocularBlur_reference [where l = 3 and r = 1 and s = initial_page and b = False]
  by auto

text \<open>
  Claim C2. For a non-negative real \<open>d\<close>, \<open>calculateBlur\<close> returns 0 when \<open>d = 0\<close> and
  \<open>1.4 * d^1.1\<close> otherwise: it is the specification's \<open>computeMonocularBlur\<close> with base
  1.4 and exponent 1.1.
\<close>

theorem calculateBlur_reference:
  assumes "0 \<le> d"
  shows "calculateBlur (Num d) = (if d = 0 then Num 0 else Num (1.4 * d powr 1.1))
       \<and> calculateBlur (Num d) = Num (computeMonocularBlur d)"
  using assms
  by (simp add: calculateBlur_def computeMonocularBlur_def BLUR_BASE_def BLUR_EXPONENT_def)

theorem calculateBlur_reference_witness:
  "(0::real) \<le> 2 \<and> calculateBlur (Num 2) = Num (1.4 * 2 powr 1.1)
     \<and> calculateBlur (Num 2) = Num (computeMonocularBlur 2)"
  using calculateBlur_reference [of 2] by auto

text \<open>
  Claim C4. For non-negative reals \<open>l\<close> and \<open>r\<close>, the binocular blur of a state with
  diopters \<open>(l, r)\<close> and the left eye dominant is the binocular blur of a state with
  diopters \<open>(r, l)\<close> and the right eye dominant; the two results are numbers that
  \<open>===\<close> identifies.
\<close>

theorem calculateBinocularBlur_swap:
  assumes "0 \<le> l" and "0 \<le> r"
  shows "calculateBinocularBlur (s\<lparr>leftDiopters := Num l, rightDiopters := Num r, isDominantLeft := True\<rparr>)
       = calculateBinocularBlur (s'\<lparr>leftDiopters := Num r, rightDiopters := Num l, isDominantLeft := False\<rparr>)
       \<and> strict_eq
           (calculateBinocularBlur (s\<lparr>leftDiopters := Num l, rightDiopters := Num r, isDominantLeft := True\<rparr>))
           (calculateBinocularBlur (s'\<lparr>leftDiopters := Num r, rightDiopters := Num l, isDominantLeft := False\<rparr>))"
proof -
  have nonneg: "0 \<le> l * 0.65 + r * 0.35"
    using assms by simp
  have a: "calculateBinocularBlur (s\<lparr>leftDiopters := Num l, rightDiopters := Num r, isDominantLeft := True\<rparr>)
             = calculateBlur (Num (l * 0.65 + r * 0.35))"
    using weightedDiopters_Num [where s = s and l = l and r = r and b = True] by (simp add: calculateBinocularBlur_def)
  have b: "calculateBinocularBlur (s'\<lparr>leftDiopters := Num r, rightDiopters := Num l, isDominantLeft := False\<rparr>)
             = calculateBlur (Num (l * 0.65 + r * 0.35))"
    using weightedDiopters_Num [where s = s' and l = r and r = l and b = False] by (simp add: calculateBinocularBlur_def)
  show ?thesis
    unfolding a b calculateBlur_Num [OF nonneg] by simp
qed

theorem calculateBinocularBlur_swap_witness:
  "(0::real) \<le> 3 \<and> (0::real) \<le> 1
   \<and> calculateBinocularBlur (initial_page\<lparr>leftDiopters := Num 3, rightDiopters := Num 1, isDominantLeft := True\<rparr>)
       = calculateBinocularBlur (initial_page\<lparr>leftDiopters := Num 1, rightDiopters := Num 3, isDominantLeft := False\<rparr>)"
  using calculateBinocularBlur_swap [where l = 3 and r = 1 and s = initial_page and s' = initial_page]
  by simp

lemma powr_11_10_bounds:
  fixes x a c :: real
  assumes "0 < x" "0 \<le> a" "a ^ 10 < x ^ 11" "x ^ 11 < c ^ 10" "0 \<le> c"
  shows "a < x powr 1.1 \<and> x powr 1.1 < c"
proof -
  have p: "(x powr 1.1) ^ 10 = x ^ 11"
  proof -
    have pos: "0 < x powr 1.1"
      using assms(1) by simp
    have "(x powr 1.1) powr (real 10) = (x powr 1.1) ^ 10"
      using pos by (rule powr_realpow)
    moreover have "(x powr 1.1) powr (real 10) = x powr (real 11)"
      unfolding powr_powr by simp
    moreover have "x powr (real 11) = x ^ 11"
      using assms(1) by (rule powr_realpow)
    ultimately show ?thesis by simp
  qed
  have "a ^ 10 < (x powr 1.1) ^ 10" using assms(3) p by simp
  then have lo: "a < x powr 1.1"
    by (rule power_less_imp_less_base) simp
  have "(x powr 1.1) ^ 10 < c ^ 10" using assms(4) p by simp
  then have hi: "x powr 1.1 < c"
    by (rule power_less_imp_less_base) (rule assms(5))
  show ?thesis using lo hi by simp
qed

lemma scenario_blur:
  "calculateBinocularBlur (initial_page\<lparr>leftDiopters := Num 3, rightDiopters := Num 0,
      isDominantLeft := True\<rparr>) = Num (1.4 * 1.95 powr 1.1)"
  by (simp add: calculateBinocularBlur_def weightedDiopters_def DOMINANT_WEIGHT_def
      calculateBlur_def BLUR_BASE_def BLUR_EXPONENT_def)

lemma scenario_bounds:
  "(2.9185::real) < 1.4 * 1.95 powr 1.1 \<and> 1.4 * 1.95 powr 1.1 < (2.9186::real)"
proof -
  have "(2.9185 / 1.4 :: real) < 1.95 powr 1.1 \<and> 1.95 powr 1.1 < (2.9186 / 1.4 :: real)"
    by (rule powr_11_10_bounds) (simp_all add: divide_simps)
  then show ?thesis by (simp add: field_simps)
qed

text \<open>
  Claim C8, as stated, fails. With left = 3.0, right = 0 and the left eye dominant, the
  binocular blur is greater than 2.91, so it does not round to 2.84: it does not lie
  between 2.835 and 2.845.
\<close>

theorem scenario_blur_is_not_2_84:
  "num_gt (calculateBinocularBlur (initial_page\<lparr>leftDiopters := Num 3, rightDiopters := Num 0,
      isDominantLeft := True\<rparr>)) (Num 2.91)
   \<and> \<not> (num_lt (Num 2.835) (calculateBinocularBlur (initial_page\<lparr>leftDiopters := Num 3,
            rightDiopters := Num 0, isDominantLeft := True\<rparr>))
        \<and> num_lt (calculateBinocularBlur (initial_page\<lparr>leftDiopters := Num 3,
            rightDiopters := Num 0, isDominantLeft := True\<rparr>)) (Num 2.845))"
  using scenario_bounds by (simp add: scenario_blur)

text \<open>
  Claim C8, amended. With left = 3.0, right = 0 and the left eye dominant, the weighted
  diopters are \<open>3.0 * 0.65 = 1.95\<close> and the binocular blur is \<open>1.4 * 1.95^1.1\<close>, which
  lies between 2.9185 and 2.9186: approximately 2.92.
\<close>

theorem scenario_blur_is_2_92:
  "weightedDiopters (initial_page\<lparr>leftDiopters := Num 3, rightDiopters := Num 0,
      isDominantLeft := True\<rparr>) = Num (3.0 * 0.65)
   \<and> weightedDiopters (initial_page\<lparr>leftDiopters := Num 3, rightDiopters := Num 0,
      isDominantLeft := True\<rparr>) = Num 1.95
   \<and> calculateBinocularBlur (initial_page\<lparr>leftDiopters := Num 3, rightDiopters := Num 0,
      isDominantLeft := True\<rparr>) = Num (1.4 * 1.95 powr 1.1)
   \<and> num_lt (Num 2.9185) (calculateBinocularBlur (initial_page\<lparr>leftDiopters := Num 3,
        rightDiopters := Num 0, isDominantLeft := True\<rparr>))
   \<and> num_lt (calculateBinocularBlur (initial_page\<lparr>leftDiopters := Num 3,
        rightDiopters := Num 0, isDominantLeft := True\<rparr>)) (Num 2.9186)"
  using scenario_bounds
  by (simp add: scenario_blur) (simp add: weightedDiopters_def DOMINANT_WEIGHT_def)

section \<open>Properties of the blur model on doubles\<close>

text \<open>
  Rounding is evaluated by enclosing the exact result between two bounds that round to
  the same double. The power \<open>x^1.1\<close> is enclosed by comparing tenth and eleventh
  powers; the exponent of the program is the double nearest to 1.1, which is
  \<open>1.1 + 1 / (5 * 2^51)\<close>, and the remaining factor is enclosed through bounds on
  the logarithm.
\<close>

lemma binade_eq:
  assumes "2 powi k \<le> \<bar>x\<bar>" and "\<bar>x\<bar> < 2 powi (k + 1)" and "- 1022 \<le> k"
  shows "binade x = k"
proof -
  have pos: "0 < \<bar>x\<bar>"
    using assms(1) zero_less_power_int [of "2::real" k] by linarith
  have a: "(2::real) powr (of_int k) = 2 powi k"
    by (rule powr_real_of_int') simp_all
  have b: "(2::real) powr (of_int k + 1) = 2 powi (k + 1)"
    using powr_real_of_int' [of "2::real" "k + 1"] by simp
  have "\<lfloor>log 2 \<bar>x\<bar>\<rfloor> = k"
    using floor_log_eq_powr_iff [of "\<bar>x\<bar>" 2 k] pos assms(1,2) a b by simp
  then show ?thesis using assms(3) by (simp add: binade_def)
qed

lemma rne_between:
  assumes "of_int m - 1 / 2 < y" and "y < of_int m + 1 / 2"
  shows "rne y = m"
proof -
  have "\<lfloor>y\<rfloor> = m \<or> \<lfloor>y\<rfloor> = m - 1"
    using assms by linarith
  then show ?thesis
  proof
    assume f: "\<lfloor>y\<rfloor> = m"
    then have "y - of_int \<lfloor>y\<rfloor> < 1 / 2" using assms by simp
    then show ?thesis using f by (simp add: rne_def Let_def)
  next
    assume f: "\<lfloor>y\<rfloor> = m - 1"
    then have "1 / 2 < y - of_int \<lfloor>y\<rfloor>" using assms by simp
    then show ?thesis using f by (simp add: rne_def Let_def)
  qed
qed

lemma rne_error: "\<bar>of_int (rne y) - y\<bar> \<le> 1 / 2"
proof -
  have "of_int \<lfloor>y\<rfloor> \<le> y" "y < of_int \<lfloor>y\<rfloor> + 1" by linarith+
  then show ?thesis
    by (auto simp: rne_def Let_def)
qed

lemma rne_mono:
  assumes "x \<le> y"
  shows "rne x \<le> rne y"
proof (rule ccontr)
  assume "\<not> rne x \<le> rne y"
  then have gt: "rne y + 1 \<le> rne x" by simp
  have ex: "\<bar>of_int (rne x) - x\<bar> \<le> 1 / 2" and ey: "\<bar>of_int (rne y) - y\<bar> \<le> 1 / 2"
    by (rule rne_error)+
  have r: "real_of_int (rne y) + 1 \<le> of_int (rne x)"
    using gt by linarith
  have eq: "x = y" "of_int (rne x) = x + 1 / 2" "of_int (rne y) = y - 1 / 2"
    using ex ey r assms by linarith+
  have "rne x = rne y" using eq(1) by simp
  then show False using gt by simp
qed

lemma rne_of_int [simp]: "rne (of_int m) = m"
  by (rule rne_between) simp_all

lemma pow2_split: "(2::real) powi (k + 1) = 2 powi (k - 52) * 2 ^ 53"
  using power_int_add [of "2::real" "k - 52" 53] by (simp add: add.commute)

lemma pow2_split': "(2::real) powi k = 2 powi (k - 52) * 2 ^ 52"
  using power_int_add [of "2::real" "k - 52" 52] by simp

lemma round64_in_binade:
  assumes x: "2 powi k \<le> x" "x < 2 powi (k + 1)" and k: "- 1022 \<le> k" "k \<le> 1022"
  shows "round64 x = Finite (of_int (rne (x / 2 powi (k - 52))) * 2 powi (k - 52))"
    and "2 ^ 52 \<le> rne (x / 2 powi (k - 52))" and "rne (x / 2 powi (k - 52)) \<le> 2 ^ 53"
proof -
  let ?u = "(2::real) powi (k - 52)"
  let ?m = "rne (x / ?u)"
  have u: "0 < ?u" by simp
  have pos: "0 < x" using x(1) zero_less_power_int [of "2::real" k] by linarith
  have b: "binade x = k"
    using x k(1) pos by (intro binade_eq) simp_all
  have "x / ?u \<le> of_int (2 ^ 53)"
    using x(2) u unfolding pow2_split [of k] by (simp add: field_simps)
  then have "?m \<le> rne (of_int (2 ^ 53))" by (rule rne_mono)
  then show mle: "?m \<le> 2 ^ 53" by (simp only: rne_of_int)
  have "of_int (2 ^ 52) \<le> x / ?u"
    using x(1) u unfolding pow2_split' [of k] by (simp add: field_simps)
  then have "rne (of_int (2 ^ 52)) \<le> ?m" by (rule rne_mono)
  then show mge: "2 ^ 52 \<le> ?m" by (simp only: rne_of_int)
  have "of_int ?m * ?u \<le> 2 ^ 53 * ?u"
    using mle u by (intro mult_right_mono) (simp_all flip: of_int_le_iff)
  also have "\<dots> = 2 powi (k + 1)" by (simp add: pow2_split [of k])
  also have "\<dots> \<le> 2 powi 1023"
    using k(2) by (intro power_int_increasing) simp_all
  also have "\<dots> < 2 ^ 1024" by simp
  finally have small: "of_int ?m * ?u < 2 ^ 1024" .
  have "(0::int) \<le> 2 ^ 52" by simp
  then have "0 \<le> ?m" using mge by (rule order_trans)
  then have nonneg: "0 \<le> of_int ?m * ?u" using u by simp
  have "\<not> 2 ^ 1024 \<le> \<bar>?u * of_int ?m\<bar>"
    using small nonneg by (simp add: mult.commute)
  then show "round64 x = Finite (of_int ?m * ?u)"
    using pos b by (simp add: round64_def Let_def mult.commute)
qed

lemma round64_at:
  assumes x: "2 powi k \<le> x" "x < 2 powi (k + 1)" and k: "- 1022 \<le> k" "k \<le> 1022"
    and m: "(of_int m - 1 / 2) * 2 powi (k - 52) < x" "x < (of_int m + 1 / 2) * 2 powi (k - 52)"
  shows "round64 x = Finite (of_int m * 2 powi (k - 52))"
proof -
  let ?u = "(2::real) powi (k - 52)"
  have u: "0 < ?u" by simp
  have "of_int m - 1 / 2 < x / ?u" "x / ?u < of_int m + 1 / 2"
    using m u by (simp_all add: field_simps)
  then have "rne (x / ?u) = m" by (rule rne_between)
  then show ?thesis using round64_in_binade(1) [OF x k] by simp
qed

lemma rne_tie: "rne (of_int f + 1 / 2) = (if even f then f else f + 1)"
proof -
  have "\<lfloor>real_of_int f + 1 / 2\<rfloor> = f" by linarith
  then show ?thesis by (simp add: rne_def Let_def)
qed

lemma round64_tie:
  assumes x: "2 powi k \<le> x" "x < 2 powi (k + 1)" and k: "- 1022 \<le> k" "k \<le> 1022"
    and f: "x = (of_int f + 1 / 2) * 2 powi (k - 52)"
  shows "round64 x = Finite (of_int (if even f then f else f + 1) * 2 powi (k - 52))"
proof -
  have "x / 2 powi (k - 52) = of_int f + 1 / 2"
    using f by simp
  then have "rne (x / 2 powi (k - 52)) = (if even f then f else f + 1)"
    by (simp only: rne_tie)
  then show ?thesis using round64_in_binade(1) [OF x k] by simp
qed

lemma round64_bracket:
  assumes x: "lo \<le> x" "x \<le> hi"
    and b: "2 powi k \<le> lo" "hi < 2 powi (k + 1)" and k: "- 1022 \<le> k" "k \<le> 1022"
    and m: "(of_int m - 1 / 2) * 2 powi (k - 52) < lo" "hi < (of_int m + 1 / 2) * 2 powi (k - 52)"
  shows "round64 x = Finite (of_int m * 2 powi (k - 52))"
  using x b m by (intro round64_at k) linarith+

lemma ln_bracket:
  fixes x rl rh :: real
  assumes "0 < rl" and "rl ^ n \<le> x" and "x \<le> rh ^ n" and "0 < rh"
  shows "real n * (1 - 1 / rl) \<le> ln x \<and> ln x \<le> real n * (rh - 1)"
proof -
  have xpos: "0 < x" using assms(1,2) zero_less_power [of rl n] by linarith
  have "ln (rl ^ n) \<le> ln x"
    using assms(1,2) by (intro ln_mono) simp_all
  then have lo: "real n * ln rl \<le> ln x" by (simp add: ln_realpow)
  have "ln x \<le> ln (rh ^ n)"
    using assms(3) xpos by (intro ln_mono) simp_all
  then have hi: "ln x \<le> real n * ln rh" by (simp add: ln_realpow)
  have "ln (1 / rl) \<le> 1 / rl - 1"
    using assms(1) by (intro ln_le_minus_one) simp
  then have l1: "1 - 1 / rl \<le> ln rl"
    using assms(1) by (simp add: ln_div)
  have l2: "ln rh \<le> rh - 1"
    using assms(4) by (rule ln_le_minus_one)
  have "real n * (1 - 1 / rl) \<le> real n * ln rl"
    using l1 by (intro mult_left_mono) simp_all
  moreover have "real n * ln rh \<le> real n * (rh - 1)"
    using l2 by (intro mult_left_mono) simp_all
  ultimately show ?thesis using lo hi by linarith
qed

lemma powr_small_bracket:
  fixes x :: real
  assumes "0 < x" and "Ll \<le> ln x" and "ln x \<le> Lh" and "0 \<le> \<delta>" and "\<delta> * Lh < 1"
  shows "1 + \<delta> * Ll \<le> x powr \<delta> \<and> x powr \<delta> \<le> 1 / (1 - \<delta> * Lh)"
proof -
  let ?z = "\<delta> * ln x"
  have e: "x powr \<delta> = exp ?z"
    using assms(1) by (simp add: powr_def)
  have zl: "\<delta> * Ll \<le> ?z" using assms(2,4) by (intro mult_left_mono)
  have zh: "?z \<le> \<delta> * Lh" using assms(3,4) by (intro mult_left_mono)
  have "1 + ?z \<le> exp ?z" by (rule exp_ge_add_one_self)
  then have lo: "1 + \<delta> * Ll \<le> exp ?z" using zl by linarith
  have pos: "0 < 1 - ?z" using zh assms(5) by linarith
  have "1 - ?z \<le> exp (- ?z)" by (rule exp_minus_ge)
  then have "exp ?z \<le> 1 / (1 - ?z)"
    using pos by (simp add: exp_minus field_simps)
  also have "\<dots> \<le> 1 / (1 - \<delta> * Lh)"
    using pos zh assms(5) by (intro divide_left_mono) (simp_all add: mult_pos_pos)
  finally show ?thesis using lo e by simp
qed

lemma powr_exponent_bracket:
  fixes x :: real
  assumes "0 < x" and "0 \<le> Al" and "Al ^ 10 < x ^ 11" and "x ^ 11 < Ah ^ 10" and "0 \<le> Ah"
    and "0 < rl" and "rl ^ n \<le> x" and "x \<le> rh ^ n" and "0 < rh"
    and "0 \<le> \<delta>" and "\<delta> * (real n * (rh - 1)) < 1" and "0 \<le> 1 + \<delta> * (real n * (1 - 1 / rl))"
  shows "Al * (1 + \<delta> * (real n * (1 - 1 / rl))) \<le> x powr (1.1 + \<delta>)
       \<and> x powr (1.1 + \<delta>) \<le> Ah / (1 - \<delta> * (real n * (rh - 1)))"
proof -
  let ?Ll = "real n * (1 - 1 / rl)" and ?Lh = "real n * (rh - 1)"
  have A: "Al < x powr 1.1 \<and> x powr 1.1 < Ah"
    using assms(1-5) by (rule powr_11_10_bounds)
  have L: "?Ll \<le> ln x \<and> ln x \<le> ?Lh"
    using assms(6-9) by (rule ln_bracket)
  have S: "1 + \<delta> * ?Ll \<le> x powr \<delta> \<and> x powr \<delta> \<le> 1 / (1 - \<delta> * ?Lh)"
    using L assms(1,10,11) by (intro powr_small_bracket) simp_all
  have split: "x powr (1.1 + \<delta>) = x powr 1.1 * x powr \<delta>"
    by (rule powr_add)
  have "Al * (1 + \<delta> * ?Ll) \<le> x powr 1.1 * x powr \<delta>"
    using A S assms(2,12) by (intro mult_mono) simp_all
  moreover have "x powr 1.1 * x powr \<delta> \<le> Ah * (1 / (1 - \<delta> * ?Lh))"
    using A S assms(5) by (intro mult_mono) simp_all
  ultimately show ?thesis unfolding split by simp
qed

lemma DOMINANT_WEIGHT64_value: "DOMINANT_WEIGHT64 = Finite (5854679515581645 / 2 ^ 53)"
  unfolding DOMINANT_WEIGHT64_def using round64_at [of "- 1" "0.65" 5854679515581645] by simp

lemma BLUR_BASE64_value: "BLUR_BASE64 = Finite (3152519739159347 / 2 ^ 51)"
  unfolding BLUR_BASE64_def using round64_at [of "0" "1.4" 6305039478318694] by simp

lemma BLUR_EXPONENT64_value: "BLUR_EXPONENT64 = Finite (1.1 + 1 / 11258999068426240)"
  unfolding BLUR_EXPONENT64_def using round64_at [of "0" "1.1" 4953959590107546] by simp

lemma non_dominant_weight64: "sub64 (Finite 1) DOMINANT_WEIGHT64 = Finite (3152519739159347 / 2 ^ 53)"
  unfolding DOMINANT_WEIGHT64_value sub64.simps using round64_at [of "- 2" "1 - 5854679515581645 / 2 ^ 53" 6305039478318694] by simp

lemma parse_0_11: "round64 0.11 = Finite (7926335344172073 / 2 ^ 56)"
  using round64_at [of "- 4" "0.11" 7926335344172073] by simp

lemma w011_dominant: "mul64 (Finite (7926335344172073 / 2 ^ 56)) DOMINANT_WEIGHT64 = Finite (644014746713981 / 2 ^ 53)"
  unfolding DOMINANT_WEIGHT64_value mul64.simps using round64_at [of "- 4" "7926335344172073 / 2 ^ 56 * (5854679515581645 / 2 ^ 53)" 5152117973711848] by simp

lemma w011_non_dominant: "mul64 (Finite (7926335344172073 / 2 ^ 56)) (Finite (3152519739159347 / 2 ^ 53)) = Finite (5548434740920451 / 2 ^ 57)"
  unfolding mul64.simps using round64_at [of "- 5" "7926335344172073 / 2 ^ 56 * (3152519739159347 / 2 ^ 53)" 5548434740920451] by simp

lemma w011_sum: "add64 (Finite (644014746713981 / 2 ^ 53)) (Finite (5548434740920451 / 2 ^ 57)) = Finite (3963167672086037 / 2 ^ 55)"
  unfolding add64.simps using round64_tie [of "- 4" "644014746713981 / 2 ^ 53 + 5548434740920451 / 2 ^ 57" 7926335344172073] by simp

lemma pow64_pos: "0 < x \<Longrightarrow> y \<noteq> 0 \<Longrightarrow> pow64 (Finite x) (Finite y) = round64 (x powr y)"
  by simp

lemma dyadic_power_less:
  fixes N M :: real
  assumes "N ^ a < M ^ b * 2 ^ s" and "q * a = p * b + s"
  shows "(N / 2 ^ q) ^ a < (M / 2 ^ p) ^ b"
proof -
  have "(N / 2 ^ q) ^ a = N ^ a / (2 ^ (p * b) * 2 ^ s)"
    using assms(2) by (simp add: power_divide power_mult [symmetric] power_add [symmetric])
  also have "\<dots> < M ^ b * 2 ^ s / (2 ^ (p * b) * 2 ^ s)"
    using assms(1) by (intro divide_strict_right_mono) simp_all
  also have "\<dots> = (M / 2 ^ p) ^ b"
    by (simp add: power_divide power_mult [symmetric])
  finally show ?thesis .
qed

lemma dyadic_power_greater:
  fixes N M :: real
  assumes "M ^ b * 2 ^ s < N ^ a" and "q * a = p * b + s"
  shows "(M / 2 ^ p) ^ b < (N / 2 ^ q) ^ a"
proof -
  have "(M / 2 ^ p) ^ b = M ^ b * 2 ^ s / (2 ^ (p * b) * 2 ^ s)"
    by (simp add: power_divide power_mult [symmetric])
  also have "\<dots> < N ^ a / (2 ^ (p * b) * 2 ^ s)"
    using assms(1) by (intro divide_strict_right_mono) simp_all
  also have "\<dots> = (N / 2 ^ q) ^ a"
    using assms(2) by (simp add: power_divide power_mult [symmetric] power_add [symmetric])
  finally show ?thesis .
qed

lemma dyadic_root_le:
  fixes R M :: real
  assumes "R ^ n \<le> M * 2 ^ s" and "c * n = p + s"
  shows "(R / 2 ^ c) ^ n \<le> M / 2 ^ p"
proof -
  have "(R / 2 ^ c) ^ n = R ^ n / (2 ^ p * 2 ^ s)"
    using assms(2) by (simp add: power_divide power_mult [symmetric] power_add [symmetric])
  also have "\<dots> \<le> M * 2 ^ s / (2 ^ p * 2 ^ s)"
    using assms(1) by (intro divide_right_mono) simp_all
  also have "\<dots> = M / 2 ^ p" by simp
  finally show ?thesis .
qed

lemma dyadic_root_ge:
  fixes R M :: real
  assumes "M * 2 ^ s \<le> R ^ n" and "c * n = p + s"
  shows "M / 2 ^ p \<le> (R / 2 ^ c) ^ n"
proof -
  have "M / 2 ^ p = M * 2 ^ s / (2 ^ p * 2 ^ s)" by simp
  also have "\<dots> \<le> R ^ n / (2 ^ p * 2 ^ s)"
    using assms(1) by (intro divide_right_mono) simp_all
  also have "\<dots> = (R / 2 ^ c) ^ n"
    using assms(2) by (simp add: power_divide power_mult [symmetric] power_add [symmetric])
  finally show ?thesis .
qed

lemma binade_bounds:
  assumes "0 < x"
  shows "x < 2 powi (binade x + 1)" and "- 1022 \<le> binade x"
    and "- 1022 < binade x \<Longrightarrow> 2 powi (binade x) \<le> x"
proof -
  let ?f = "\<lfloor>log 2 x\<rfloor>"
  have f: "2 powr (of_int ?f) \<le> x \<and> x < 2 powr (of_int ?f + 1)"
    using floor_log_eq_powr_iff [of x 2 ?f] assms by simp
  have a: "(2::real) powr (of_int ?f) = 2 powi ?f"
    by (rule powr_real_of_int') simp_all
  have b: "(2::real) powr (of_int ?f + 1) = 2 powi (?f + 1)"
    using powr_real_of_int' [of "2::real" "?f + 1"] by simp
  have bx: "binade x = max ?f (- 1022)"
    using assms by (simp add: binade_def)
  have "x < 2 powi (?f + 1)" using f b by simp
  also have "\<dots> \<le> 2 powi (binade x + 1)"
    unfolding bx by (intro power_int_increasing) simp_all
  finally show "x < 2 powi (binade x + 1)" .
  show "- 1022 \<le> binade x" unfolding bx by simp
  assume "- 1022 < binade x"
  then have "binade x = ?f" unfolding bx by simp
  then show "2 powi (binade x) \<le> x" using f a by simp
qed


lemma round64_unbounded:
  assumes "0 < x"
  shows "round64 x = (if 2 ^ 1024 \<le> unbounded64 x then Infinite True else Finite (unbounded64 x))"
    and "0 \<le> unbounded64 x"
proof -
  let ?u = "(2::real) powi (binade x - 52)"
  have "0 \<le> x / ?u" using assms by simp
  then have "rne (of_int 0) \<le> rne (x / ?u)" by (intro rne_mono) simp
  then have "0 \<le> rne (x / ?u)" by (simp only: rne_of_int)
  then show nn: "0 \<le> unbounded64 x" by (simp add: unbounded64_def)
  then show "round64 x = (if 2 ^ 1024 \<le> unbounded64 x then Infinite True else Finite (unbounded64 x))"
    using assms by (simp add: round64_def Let_def unbounded64_def)
qed





lemma round64_rel_error:
  assumes "2 powi (- 1022) \<le> x" and "x < 2 powi 1023"
  shows "\<exists>r. round64 x = Finite r \<and> \<bar>r - x\<bar> \<le> x / 2 ^ 53"
proof -
  have pos: "0 < x" using assms(1) zero_less_power_int [of "2::real" "- 1022"] by linarith
  let ?k = "binade x"
  let ?u = "(2::real) powi (?k - 52)"
  have u: "0 < ?u" by simp
  have up: "x < 2 powi (?k + 1)" using pos by (rule binade_bounds)
  have k1: "- 1022 \<le> ?k" using pos by (rule binade_bounds)
  have lo: "2 powi ?k \<le> x"
  proof (cases "- 1022 < ?k")
    case True
    then show ?thesis using pos by (intro binade_bounds(3))
  next
    case False
    then have "?k = - 1022" using k1 by simp
    then show ?thesis using assms(1) by simp
  qed
  have k2: "?k \<le> 1022"
  proof (rule ccontr)
    assume "\<not> ?k \<le> 1022"
    then have "1023 \<le> ?k" by simp
    then have "(2::real) powi 1023 \<le> 2 powi ?k" by (intro power_int_increasing) simp_all
    then show False using lo assms(2) by linarith
  qed
  let ?m = "rne (x / ?u)"
  have r: "round64 x = Finite (of_int ?m * ?u)"
    using lo up k1 k2 by (rule round64_in_binade)
  have "\<bar>of_int ?m - x / ?u\<bar> \<le> 1 / 2" by (rule rne_error)
  then have "\<bar>of_int ?m - x / ?u\<bar> * ?u \<le> 1 / 2 * ?u"
    using u by (intro mult_right_mono) simp_all
  moreover have "\<bar>of_int ?m - x / ?u\<bar> * ?u = \<bar>of_int ?m * ?u - x\<bar>"
  proof -
    have "\<bar>of_int ?m - x / ?u\<bar> * ?u = \<bar>(of_int ?m - x / ?u) * ?u\<bar>"
      using u by (simp add: abs_mult)
    also have "(of_int ?m - x / ?u) * ?u = of_int ?m * ?u - x"
      using u by (simp add: field_simps)
    finally show ?thesis .
  qed
  moreover have "1 / 2 * ?u = 2 powi ?k / 2 ^ 53"
    unfolding pow2_split' [of ?k] by simp
  moreover have "2 powi ?k / 2 ^ 53 \<le> x / 2 ^ 53"
    using lo by (intro divide_right_mono) simp_all
  ultimately have "\<bar>of_int ?m * ?u - x\<bar> \<le> x / 2 ^ 53" by linarith
  then show ?thesis using r by blast
qed

lemma pow64_0_11: "pow64 (Finite (7926335344172073 / 2 ^ 56)) BLUR_EXPONENT64 = Finite (3178203599571655 / 2 ^ 55)"
proof -
  have c1: "(406810060745171921 / 2 ^ 62 :: real) ^ 10 < (7926335344172073 / 2 ^ 56) ^ 11"
    by (rule dyadic_power_less [where s = 4]) simp_all
  have c2: "(7926335344172073 / 2 ^ 56) ^ 11 < (406810060745171922 / 2 ^ 62 :: real) ^ 10"
    by (rule dyadic_power_greater [where s = 4]) simp_all
  have c3: "(57090 / 2 ^ 16 :: real) ^ 16 \<le> (7926335344172073 / 2 ^ 56)"
    by (rule dyadic_root_le [where s = 200]) simp_all
  have c4: "(7926335344172073 / 2 ^ 56) \<le> (57091 / 2 ^ 16 :: real) ^ 16"
    by (rule dyadic_root_ge [where s = 200]) simp_all
  have br: "406810060745171921 / 2 ^ 62 * (1 + 1 / 11258999068426240 * (real 16 * (1 - 1 / (57090 / 2 ^ 16))))
        \<le> (7926335344172073 / 2 ^ 56) powr (1.1 + 1 / 11258999068426240)
      \<and> (7926335344172073 / 2 ^ 56) powr (1.1 + 1 / 11258999068426240)
        \<le> 406810060745171922 / 2 ^ 62 / (1 - 1 / 11258999068426240 * (real 16 * (57091 / 2 ^ 16 - 1)))"
    by (rule powr_exponent_bracket [OF _ _ c1 c2 _ _ c3 c4]) simp_all
  have "round64 ((7926335344172073 / 2 ^ 56) powr (1.1 + 1 / 11258999068426240)) = Finite (of_int 6356407199143310 * 2 powi (- 4 - 52))"
    by (rule round64_bracket [OF conjunct1 [OF br] conjunct2 [OF br]]) simp_all
  moreover have "pow64 (Finite (7926335344172073 / 2 ^ 56)) (Finite (1.1 + 1 / 11258999068426240)) = round64 ((7926335344172073 / 2 ^ 56) powr (1.1 + 1 / 11258999068426240))"
    by (rule pow64_pos) simp_all
  ultimately show ?thesis unfolding BLUR_EXPONENT64_value by simp
qed

lemma calculateBlur64_0_11: "calculateBlur64 (Finite (7926335344172073 / 2 ^ 56)) = Finite (8898970078800633 / 2 ^ 56)"
proof -
  have r: "round64 (3152519739159347 / 2 ^ 51 * (3178203599571655 / 2 ^ 55)) = Finite (8898970078800633 / 2 ^ 56)"
    using round64_at [of "- 4" "3152519739159347 / 2 ^ 51 * (3178203599571655 / 2 ^ 55)" 8898970078800633] by simp
  have "calculateBlur64 (Finite (7926335344172073 / 2 ^ 56)) = mul64 BLUR_BASE64 (pow64 (Finite (7926335344172073 / 2 ^ 56)) BLUR_EXPONENT64)"
    by (simp add: calculateBlur64_def)
  also have "\<dots> = mul64 (Finite (3152519739159347 / 2 ^ 51)) (Finite (3178203599571655 / 2 ^ 55))"
    by (simp only: pow64_0_11 BLUR_BASE64_value)
  also have "\<dots> = round64 (3152519739159347 / 2 ^ 51 * (3178203599571655 / 2 ^ 55))"
    by (simp only: mul64.simps)
  finally show ?thesis by (simp only: r)
qed

lemma pow64_w011: "pow64 (Finite (3963167672086037 / 2 ^ 55)) BLUR_EXPONENT64 = Finite (6356407199143311 / 2 ^ 56)"
proof -
  have c1: "(203405030372585989 / 2 ^ 61 :: real) ^ 10 < (3963167672086037 / 2 ^ 55) ^ 11"
    by (rule dyadic_power_less [where s = 5]) simp_all
  have c2: "(3963167672086037 / 2 ^ 55) ^ 11 < (203405030372585990 / 2 ^ 61 :: real) ^ 10"
    by (rule dyadic_power_greater [where s = 5]) simp_all
  have c3: "(57090 / 2 ^ 16 :: real) ^ 16 \<le> (3963167672086037 / 2 ^ 55)"
    by (rule dyadic_root_le [where s = 201]) simp_all
  have c4: "(3963167672086037 / 2 ^ 55) \<le> (57091 / 2 ^ 16 :: real) ^ 16"
    by (rule dyadic_root_ge [where s = 201]) simp_all
  have br: "203405030372585989 / 2 ^ 61 * (1 + 1 / 11258999068426240 * (real 16 * (1 - 1 / (57090 / 2 ^ 16))))
        \<le> (3963167672086037 / 2 ^ 55) powr (1.1 + 1 / 11258999068426240)
      \<and> (3963167672086037 / 2 ^ 55) powr (1.1 + 1 / 11258999068426240)
        \<le> 203405030372585990 / 2 ^ 61 / (1 - 1 / 11258999068426240 * (real 16 * (57091 / 2 ^ 16 - 1)))"
    by (rule powr_exponent_bracket [OF _ _ c1 c2 _ _ c3 c4]) simp_all
  have "round64 ((3963167672086037 / 2 ^ 55) powr (1.1 + 1 / 11258999068426240)) = Finite (of_int 6356407199143311 * 2 powi (- 4 - 52))"
    by (rule round64_bracket [OF conjunct1 [OF br] conjunct2 [OF br]]) simp_all
  moreover have "pow64 (Finite (3963167672086037 / 2 ^ 55)) (Finite (1.1 + 1 / 11258999068426240)) = round64 ((3963167672086037 / 2 ^ 55) powr (1.1 + 1 / 11258999068426240))"
    by (rule pow64_pos) simp_all
  ultimately show ?thesis unfolding BLUR_EXPONENT64_value by simp
qed

lemma calculateBlur64_w011: "calculateBlur64 (Finite (3963167672086037 / 2 ^ 55)) = Finite (8898970078800635 / 2 ^ 56)"
proof -
  have r: "round64 (3152519739159347 / 2 ^ 51 * (6356407199143311 / 2 ^ 56)) = Finite (8898970078800635 / 2 ^ 56)"
    using round64_at [of "- 4" "3152519739159347 / 2 ^ 51 * (6356407199143311 / 2 ^ 56)" 8898970078800635] by simp
  have "calculateBlur64 (Finite (3963167672086037 / 2 ^ 55)) = mul64 BLUR_BASE64 (pow64 (Finite (3963167672086037 / 2 ^ 55)) BLUR_EXPONENT64)"
    by (simp add: calculateBlur64_def)
  also have "\<dots> = mul64 (Finite (3152519739159347 / 2 ^ 51)) (Finite (6356407199143311 / 2 ^ 56))"
    by (simp only: pow64_w011 BLUR_BASE64_value)
  also have "\<dots> = round64 (3152519739159347 / 2 ^ 51 * (6356407199143311 / 2 ^ 56))"
    by (simp only: mul64.simps)
  finally show ?thesis by (simp only: r)
qed





lemma round64_not_Nan: "round64 x \<noteq> Nan"
  by (simp add: round64_def Let_def)

lemma round64_nonneg:
  assumes "0 \<le> x"
  shows "(\<exists>r. round64 x = Finite r \<and> 0 \<le> r) \<or> round64 x = Infinite True"
proof (cases "x = 0")
  case True
  then show ?thesis by (simp add: round64_def)
next
  case False
  then have "0 < x" using assms by simp
  then show ?thesis using round64_unbounded [of x] by simp
qed


lemma calculateBlur64_pos:
  assumes "0 < d"
  shows "calculateBlur64 (Finite d)
       = mul64 (Finite (3152519739159347 / 2 ^ 51)) (round64 (d powr (1.1 + 1 / 11258999068426240)))"
proof -
  have "pow64 (Finite d) (Finite (1.1 + 1 / 11258999068426240))
      = round64 (d powr (1.1 + 1 / 11258999068426240))"
    using assms by (intro pow64_pos) simp_all
  then show ?thesis
    using assms by (simp add: calculateBlur64_def BLUR_BASE64_value BLUR_EXPONENT64_value)
qed

lemma calculateBlur64_not_Nan:
  assumes "0 \<le> d"
  shows "calculateBlur64 (Finite d) \<noteq> Nan"
proof (cases "d = 0")
  case True
  then show ?thesis by (simp add: calculateBlur64_def)
next
  case False
  then have pos: "0 < d" using assms by simp
  have "0 \<le> d powr (1.1 + 1 / 11258999068426240)" by simp
  then consider (inf) "round64 (d powr (1.1 + 1 / 11258999068426240)) = Infinite True"
    | (fin) r where "round64 (d powr (1.1 + 1 / 11258999068426240)) = Finite r"
    using round64_nonneg by blast
  then show ?thesis
  proof cases
    case inf
    then show ?thesis unfolding calculateBlur64_pos [OF pos] by simp
  next
    case fin
    then show ?thesis unfolding calculateBlur64_pos [OF pos] by (simp add: round64_not_Nan)
  qed
qed




lemma weightedDiopters64_equal:
  "weightedDiopters64 \<lparr>leftDiopters64 = x, rightDiopters64 = x, isDominantLeft64 = b\<rparr>
     = add64 (mul64 x (Finite (5854679515581645 / 2 ^ 53))) (mul64 x (Finite (3152519739159347 / 2 ^ 53)))"
  unfolding weightedDiopters64_def Let_def non_dominant_weight64
  by (simp add: DOMINANT_WEIGHT64_value)

lemma weighted_0_11:
  "weightedDiopters64 \<lparr>leftDiopters64 = round64 0.11, rightDiopters64 = round64 0.11, isDominantLeft64 = b\<rparr>
     = Finite (3963167672086037 / 2 ^ 55)"
  unfolding weightedDiopters64_equal parse_0_11
  by (simp only: w011_dominant [unfolded DOMINANT_WEIGHT64_value] w011_non_dominant w011_sum)

lemma sum_rel_error:
  fixes a c p q k :: real
  assumes "\<bar>a - p\<bar> \<le> p / k" and "\<bar>c - q\<bar> \<le> q / k"
  shows "\<bar>a + c - (p + q)\<bar> \<le> (p + q) / k"
  using assms unfolding add_divide_distrib by linarith

lemma rel_error_nonneg:
  fixes w d k :: real
  assumes "\<bar>w - d\<bar> \<le> d / k" and "0 \<le> d" and "1 \<le> k"
  shows "0 \<le> w"
proof -
  have k: "0 < k" using assms(3) by linarith
  have "d * 1 \<le> d * k" using assms(2,3) by (intro mult_left_mono)
  then have "d / k \<le> d" using k by (simp add: pos_divide_le_eq)
  then show ?thesis using assms(1) by linarith
qed

lemma equal_eyes_weighted:
  assumes "2 powi (- 1000) \<le> d" and "d \<le> 2 powi 1000"
  shows "\<exists>w. add64 (mul64 (Finite d) (Finite (5854679515581645 / 2 ^ 53)))
                   (mul64 (Finite d) (Finite (3152519739159347 / 2 ^ 53))) = Finite w
            \<and> \<bar>w - d\<bar> \<le> d / 2 ^ 51"
proof -
  let ?w1 = "5854679515581645 / 2 ^ 53 :: real"
  let ?w2 = "3152519739159347 / 2 ^ 53 :: real"
  have lo: "(2::real) powi (- 1022) \<le> 2 powi (- 1000) / 4" by simp
  have hi: "(2::real) powi 1000 * 2 < 2 powi 1023" by simp
  have dpos: "0 < d" using assms(1) zero_less_power_int [of "2::real" "- 1000"] by linarith
  have s: "d * ?w1 + d * ?w2 = d" by (simp add: algebra_simps)
  have w1: "d / 4 \<le> d * ?w1" "d * ?w1 \<le> d" using dpos by simp_all
  have w2: "d / 4 \<le> d * ?w2" "d * ?w2 \<le> d" using dpos by simp_all
  have "2 powi (- 1022) \<le> d * ?w1" "d * ?w1 < 2 powi 1023"
    using w1 lo hi assms by linarith+
  then obtain a where a: "round64 (d * ?w1) = Finite a" "\<bar>a - d * ?w1\<bar> \<le> d * ?w1 / 2 ^ 53"
    using round64_rel_error by blast
  have "2 powi (- 1022) \<le> d * ?w2" "d * ?w2 < 2 powi 1023"
    using w2 lo hi assms by linarith+
  then obtain c where c: "round64 (d * ?w2) = Finite c" "\<bar>c - d * ?w2\<bar> \<le> d * ?w2 / 2 ^ 53"
    using round64_rel_error by blast
  have ac: "\<bar>a + c - d\<bar> \<le> d / 2 ^ 53"
    using sum_rel_error [OF a(2) c(2)] unfolding s .
  have small: "d / 2 ^ 53 \<le> d / 2" using dpos by simp
  have r1: "d / 2 \<le> a + c" "a + c \<le> 2 * d" using ac small dpos by linarith+
  have "2 powi (- 1022) \<le> a + c" "a + c < 2 powi 1023"
    using r1 lo hi assms by linarith+
  then obtain w where w: "round64 (a + c) = Finite w" "\<bar>w - (a + c)\<bar> \<le> (a + c) / 2 ^ 53"
    using round64_rel_error by blast
  have "(a + c) / 2 ^ 53 \<le> 2 * d / 2 ^ 53"
    using r1(2) by (intro divide_right_mono) simp_all
  then have "\<bar>w - d\<bar> \<le> 2 * d / 2 ^ 53 + d / 2 ^ 53"
    using w(2) ac by linarith
  also have "\<dots> \<le> d / 2 ^ 51" using dpos by simp
  finally have "\<bar>w - d\<bar> \<le> d / 2 ^ 51" .
  then show ?thesis using a(1) c(1) w(1) by simp
qed

lemma weighted_2:
  "weightedDiopters64 \<lparr>leftDiopters64 = Finite 2, rightDiopters64 = Finite 2, isDominantLeft64 = b\<rparr>
     = Finite 2"
proof -
  have a: "round64 (2 * (5854679515581645 / 2 ^ 53)) = Finite (5854679515581645 / 2 ^ 52)"
    using round64_at [of 0 "2 * (5854679515581645 / 2 ^ 53)" 5854679515581645] by simp
  have c: "round64 (2 * (3152519739159347 / 2 ^ 53)) = Finite (3152519739159347 / 2 ^ 52)"
    using round64_at [of "- 1" "2 * (3152519739159347 / 2 ^ 53)" 6305039478318694] by simp
  have s: "round64 (5854679515581645 / 2 ^ 52 + 3152519739159347 / 2 ^ 52) = Finite 2"
    using round64_at [of 1 "5854679515581645 / 2 ^ 52 + 3152519739159347 / 2 ^ 52" 4503599627370496] by simp
  show ?thesis
    unfolding weightedDiopters64_equal mul64.simps a c add64.simps by (rule s)
qed




text \<open>
  Claim C10, as stated, fails on the numbers of the program. With both eyes at 0.11
  (the double \<open>7926335344172073 / 2^56\<close>), the sum of the two rounded products is a
  tie that rounds to the next double, 0.11000000000000001, for either value of the
  dominance flag; the binocular blur is then 0.12349801846168511
  (\<open>8898970078800635 / 2^56\<close>), while \<open>calculateBlur(0.11)\<close> is 0.12349801846168508
  (\<open>8898970078800633 / 2^56\<close>), and \<open>===\<close> between the two is false.
\<close>

theorem equal_eyes_blur_differs_at_0_11:
  "round64 0.11 = Finite (7926335344172073 / 2 ^ 56)
   \<and> weightedDiopters64 \<lparr>leftDiopters64 = round64 0.11, rightDiopters64 = round64 0.11,
        isDominantLeft64 = True\<rparr> = Finite (3963167672086037 / 2 ^ 55)
   \<and> calculateBlur64 (round64 0.11) = Finite (8898970078800633 / 2 ^ 56)
   \<and> calculateBinocularBlur64 \<lparr>leftDiopters64 = round64 0.11, rightDiopters64 = round64 0.11,
        isDominantLeft64 = True\<rparr> = Finite (8898970078800635 / 2 ^ 56)
   \<and> calculateBinocularBlur64 \<lparr>leftDiopters64 = round64 0.11, rightDiopters64 = round64 0.11,
        isDominantLeft64 = False\<rparr> = Finite (8898970078800635 / 2 ^ 56)
   \<and> \<not> strict_eq64
         (calculateBinocularBlur64 \<lparr>leftDiopters64 = round64 0.11, rightDiopters64 = round64 0.11,
            isDominantLeft64 = True\<rparr>)
         (calculateBlur64 (round64 0.11))
   \<and> \<not> strict_eq64
         (calculateBinocularBlur64 \<lparr>leftDiopters64 = round64 0.11, rightDiopters64 = round64 0.11,
            isDominantLeft64 = False\<rparr>)
         (calculateBlur64 (round64 0.11))"
proof -
  have m: "calculateBlur64 (round64 0.11) = Finite (8898970078800633 / 2 ^ 56)"
    unfolding parse_0_11 by (rule calculateBlur64_0_11)
  have b: "calculateBinocularBlur64 \<lparr>leftDiopters64 = round64 0.11, rightDiopters64 = round64 0.11,
        isDominantLeft64 = f\<rparr> = Finite (8898970078800635 / 2 ^ 56)" for f
    unfolding calculateBinocularBlur64_def weighted_0_11 by (rule calculateBlur64_w011)
  have ne: "\<not> strict_eq64 (Finite (8898970078800635 / 2 ^ 56)) (Finite (8898970078800633 / 2 ^ 56))"
    by simp
  show ?thesis
    unfolding b m using ne parse_0_11 weighted_0_11 [of True] by blast
qed

text \<open>
  Claim C10, amended. Let both eyes hold the same value \<open>d\<close>, with \<open>d = 0\<close> or
  \<open>2^-1000 \<le> d \<le> 2^1000\<close>. The weighted value is the same finite number \<open>w\<close> for
  both values of the dominance flag, it differs from \<open>d\<close> by at most \<open>d / 2^51\<close>, and
  the binocular blur is \<open>calculateBlur(w)\<close>, so it does not depend on the flag. When
  the weighted value is \<open>d\<close> itself (as it is at \<open>d = 2\<close>), the binocular blur is
  \<open>calculateBlur(d)\<close>.
\<close>

theorem calculateBinocularBlur64_equal_eyes:
  assumes "d = 0 \<or> 2 powi (- 1000) \<le> d \<and> d \<le> 2 powi 1000"
  shows "(\<exists>w. weightedDiopters64 \<lparr>leftDiopters64 = Finite d, rightDiopters64 = Finite d,
                  isDominantLeft64 = True\<rparr> = Finite w
            \<and> weightedDiopters64 \<lparr>leftDiopters64 = Finite d, rightDiopters64 = Finite d,
                  isDominantLeft64 = False\<rparr> = Finite w
            \<and> \<bar>w - d\<bar> \<le> d / 2 ^ 51
            \<and> calculateBinocularBlur64 \<lparr>leftDiopters64 = Finite d, rightDiopters64 = Finite d,
                  isDominantLeft64 = True\<rparr> = calculateBlur64 (Finite w)
            \<and> calculateBinocularBlur64 \<lparr>leftDiopters64 = Finite d, rightDiopters64 = Finite d,
                  isDominantLeft64 = False\<rparr> = calculateBlur64 (Finite w))
       \<and> strict_eq64
           (calculateBinocularBlur64 \<lparr>leftDiopters64 = Finite d, rightDiopters64 = Finite d,
              isDominantLeft64 = True\<rparr>)
           (calculateBinocularBlur64 \<lparr>leftDiopters64 = Finite d, rightDiopters64 = Finite d,
              isDominantLeft64 = False\<rparr>)
       \<and> (weightedDiopters64 \<lparr>leftDiopters64 = Finite d, rightDiopters64 = Finite d,
              isDominantLeft64 = b\<rparr> = Finite d
            \<longrightarrow> strict_eq64
                  (calculateBinocularBlur64 \<lparr>leftDiopters64 = Finite d, rightDiopters64 = Finite d,
                     isDominantLeft64 = b\<rparr>)
                  (calculateBlur64 (Finite d)))"
proof -
  let ?e = "add64 (mul64 (Finite d) (Finite (5854679515581645 / 2 ^ 53)))
                  (mul64 (Finite d) (Finite (3152519739159347 / 2 ^ 53)))"
  have nonneg: "0 \<le> d"
  proof -
    have "0 < (2::real) powi (- 1000)" by (rule zero_less_power_int) simp
    then show ?thesis using assms by linarith
  qed
  have "\<exists>w. ?e = Finite w \<and> \<bar>w - d\<bar> \<le> d / 2 ^ 51"
  proof (cases "d = 0")
    case True
    then show ?thesis by (simp add: round64_def)
  next
    case False
    then show ?thesis using assms by (intro equal_eyes_weighted) simp_all
  qed
  then obtain w where w: "?e = Finite w" "\<bar>w - d\<bar> \<le> d / 2 ^ 51" by blast
  have wd: "weightedDiopters64 \<lparr>leftDiopters64 = Finite d, rightDiopters64 = Finite d,
      isDominantLeft64 = f\<rparr> = Finite w" for f
    unfolding weightedDiopters64_equal by (rule w(1))
  have bb: "calculateBinocularBlur64 \<lparr>leftDiopters64 = Finite d, rightDiopters64 = Finite d,
      isDominantLeft64 = f\<rparr> = calculateBlur64 (Finite w)" for f
    unfolding calculateBinocularBlur64_def wd ..
  have w0: "0 \<le> w" using w(2) nonneg by (rule rel_error_nonneg) simp
  have refl: "strict_eq64 (calculateBlur64 (Finite x)) (calculateBlur64 (Finite x))" if "0 \<le> x" for x
    using calculateBlur64_not_Nan [OF that] by (cases "calculateBlur64 (Finite x)") simp_all
  have first: "\<exists>w. weightedDiopters64 \<lparr>leftDiopters64 = Finite d, rightDiopters64 = Finite d,
                  isDominantLeft64 = True\<rparr> = Finite w
            \<and> weightedDiopters64 \<lparr>leftDiopters64 = Finite d, rightDiopters64 = Finite d,
                  isDominantLeft64 = False\<rparr> = Finite w
            \<and> \<bar>w - d\<bar> \<le> d / 2 ^ 51
            \<and> calculateBinocularBlur64 \<lparr>leftDiopters64 = Finite d, rightDiopters64 = Finite d,
                  isDominantLeft64 = True\<rparr> = calculateBlur64 (Finite w)
            \<and> calculateBinocularBlur64 \<lparr>leftDiopters64 = Finite d, rightDiopters64 = Finite d,
                  isDominantLeft64 = False\<rparr> = calculateBlur64 (Finite w)"
    using wd bb w(2) by blast
  have second: "strict_eq64
           (calculateBinocularBlur64 \<lparr>leftDiopters64 = Finite d, rightDiopters64 = Finite d,
              isDominantLeft64 = True\<rparr>)
           (calculateBinocularBlur64 \<lparr>leftDiopters64 = Finite d, rightDiopters64 = Finite d,
              isDominantLeft64 = False\<rparr>)"
    unfolding bb using w0 by (rule refl)
  have third: "weightedDiopters64 \<lparr>leftDiopters64 = Finite d, rightDiopters64 = Finite d,
              isDominantLeft64 = b\<rparr> = Finite d
            \<longrightarrow> strict_eq64
                  (calculateBinocularBlur64 \<lparr>leftDiopters64 = Finite d, rightDiopters64 = Finite d,
                     isDominantLeft64 = b\<rparr>)
                  (calculateBlur64 (Finite d))"
    unfolding calculateBinocularBlur64_def using refl [OF nonneg] by simp
  show ?thesis using first second third by blast
qed

theorem calculateBinocularBlur64_equal_eyes_witness:
  "((2::real) = 0 \<or> 2 powi (- 1000) \<le> (2::real) \<and> (2::real) \<le> 2 powi 1000)
   \<and> weightedDiopters64 \<lparr>leftDiopters64 = Finite 2, rightDiopters64 = Finite 2,
        isDominantLeft64 = False\<rparr> = Finite 2
   \<and> strict_eq64
       (calculateBinocularBlur64 \<lparr>leftDiopters64 = Finite 2, rightDiopters64 = Finite 2,
          isDominantLeft64 = False\<rparr>)
       (calculateBlur64 (Finite 2))"
proof -
  have h: "(2::real) = 0 \<or> 2 powi (- 1000) \<le> (2::real) \<and> (2::real) \<le> 2 powi 1000"
    by simp
  show ?thesis
    using calculateBinocularBlur64_equal_eyes [OF h, where b = False] h weighted_2 [of False]
    by blast
qed

section \<open>Properties of the display text\<close>

lemma is_digit_digit: "n < 10 \<Longrightarrow> is_digit (digit n)"
proof -
  assume "n < 10"
  then have "n \<in> {0,1,2,3,4,5,6,7,8,9}" by auto
  then show ?thesis by (auto simp: is_digit_def digit_def)
qed

lemma digits_all_digit: "list_all is_digit (digits n)"
proof (induction n rule: digits.induct)
  case (1 n)
  show ?case
  proof (cases "n < 10")
    case True
    then show ?thesis by (subst digits.simps) (simp add: is_digit_digit)
  next
    case False
    then show ?thesis using 1 by (subst digits.simps) (simp add: is_digit_digit)
  qed
qed

lemma digits_nonempty: "digits n \<noteq> []"
  by (subst digits.simps) simp

lemma digits_small: "n < 10 \<Longrightarrow> digits n = [digit n]"
  by (subst digits.simps) simp

lemma digits_step: "10 \<le> n \<Longrightarrow> digits n = digits (n div 10) @ [digit (n mod 10)]"
  by (subst digits.simps) simp

lemma digits_two: "100 \<le> n \<Longrightarrow> digits n = digits (n div 100) @ [digit (n div 10 mod 10), digit (n mod 10)]"
proof -
  assume h: "100 \<le> n"
  then have a: "10 \<le> n" and b: "10 \<le> n div 10" by auto
  have c: "n div 10 div 10 = n div 100" by (simp add: div_mult2_eq [symmetric])
  show ?thesis
    using digits_step [OF a] digits_step [OF b] c by simp
qed

lemma toFixed_2:
  assumes "0 \<le> x" and "x < 10 ^ 21"
  shows "toFixed ts (Num x) 2
         = digits (nat \<lfloor>x * 100 + 1 / 2\<rfloor> div 100)
           @ ''.'' @ [digit (nat \<lfloor>x * 100 + 1 / 2\<rfloor> div 10 mod 10), digit (nat \<lfloor>x * 100 + 1 / 2\<rfloor> mod 10)]"
proof -
  define n where "n = nat \<lfloor>x * 100 + 1 / 2\<rfloor>"
  have abs: "\<bar>x\<bar> = x" "\<not> x < 0" "\<not> 10 ^ 21 \<le> x" using assms by auto
  have tf: "toFixed ts (Num x) 2 =
     (let m = (if n = 0 then ''0'' else digits n);
          k = length m;
          m' = (if k \<le> 2 then replicate (3 - k) (CHR ''0'') @ m else m);
          k' = (if k \<le> 2 then 3 else k)
      in take (k' - 2) m' @ ''.'' @ drop (k' - 2) m')"
    using abs by (simp add: toFixed_def Let_def n_def)
  consider "n = 0" | "0 < n" "n < 10" | "10 \<le> n" "n < 100" | "100 \<le> n" by linarith
  then have "toFixed ts (Num x) 2 = digits (n div 100) @ ''.'' @ [digit (n div 10 mod 10), digit (n mod 10)]"
  proof cases
    case 1
    then show ?thesis unfolding tf by (simp add: digits_small digit_def)
  next
    case 2
    then show ?thesis unfolding tf by (simp add: digits_small digit_def)
  next
    case 3
    then have d: "digits n = [digit (n div 10), digit (n mod 10)]"
      using digits_step [of n] digits_small [of "n div 10"] by simp
    show ?thesis unfolding tf using 3 d by (simp add: digits_small digit_def)
  next
    case 4
    have len: "length (digits (n div 100)) > 0" using digits_nonempty by simp
    show ?thesis unfolding tf using 4 digits_two [OF 4(1)] len by (simp add: Let_def)
  qed
  then show ?thesis by (simp add: n_def)
qed


lemma updateEyeDisplay_text:
  "textContent d (updateEyeDisplay h d v s)
     = (if num_gt v (Num 0) then ''-'' @ toFixed (Number_toString h) v 2 else ''0.00'')"
  by (cases d) (simp_all add: updateEyeDisplay_def set_textContent_def textContent_def)

lemma minus_fixed2_digits:
  assumes "a < 10" "b < 10"
  shows "is_minus_fixed2 (''-'' @ digits m @ ''.'' @ [digit a, digit b])"
proof -
  have len: "Suc 0 \<le> length (digits m)"
    using digits_nonempty [of m] by (cases "digits m") simp_all
  show ?thesis
    using len digits_all_digit [of m] assms by (simp add: is_digit_digit)
qed

lemma nearest_hundredth:
  fixes x :: real
  assumes "0 \<le> x"
  shows "\<bar>real (nat \<lfloor>x * 100 + 1 / 2\<rfloor>) / 100 - x\<bar> \<le> 1 / 200"
proof -
  define k where "k = \<lfloor>x * 100 + 1 / 2\<rfloor>"
  have nn: "0 \<le> k" using assms by (simp add: k_def)
  then have r: "real (nat k) = of_int k" by simp
  have lo: "of_int k \<le> x * 100 + 1 / 2" unfolding k_def by (rule of_int_floor_le)
  have hi: "x * 100 + 1 / 2 < of_int k + 1" unfolding k_def by linarith
  have "\<bar>real (nat k) / 100 - x\<bar> \<le> 1 / 200"
    unfolding r using lo hi by linarith
  then show ?thesis by (simp add: k_def)
qed

text \<open>
  Claim C9. For a diopter value \<open>v\<close> written by a slider, the display text is
  \<open>0.00\<close> unless \<open>v > 0\<close>; for a positive \<open>v = x\<close> (below \<open>10^21\<close>, where
  \<open>toFixed\<close> leaves decimal notation; the sliders are bounded far below) it has the
  shape \<open>-X.XX\<close> and shows \<open>x\<close> rounded to the nearest hundredth: a minus sign, the
  digits of the whole part, a point and two digits. The two slider listeners store the
  value and call \<open>updateEyeDisplay\<close> on it.
\<close>

theorem updateEyeDisplay_format:
  "(v = Num x \<and> 0 < x \<and> x < 10 ^ 21 \<longrightarrow>
      is_minus_fixed2 (textContent d (updateEyeDisplay h d v s))
      \<and> textContent d (updateEyeDisplay h d v s)
          = ''-'' @ digits (nat \<lfloor>x * 100 + 1 / 2\<rfloor> div 100) @ ''.''
              @ [digit (nat \<lfloor>x * 100 + 1 / 2\<rfloor> div 10 mod 10), digit (nat \<lfloor>x * 100 + 1 / 2\<rfloor> mod 10)]
      \<and> \<bar>real (nat \<lfloor>x * 100 + 1 / 2\<rfloor>) / 100 - x\<bar> \<le> 1 / 200)
   \<and> (\<not> num_gt v (Num 0) \<longrightarrow> textContent d (updateEyeDisplay h d v s) = ''0.00'')
   \<and> (wired s \<longrightarrow>
        step h (SliderLeftInput v) s = updateEyeDisplay h DiopterLeftDisplay v (s\<lparr>leftDiopters := v\<rparr>)
        \<and> step h (SliderRightInput v) s = updateEyeDisplay h DiopterRightDisplay v (s\<lparr>rightDiopters := v\<rparr>))"
proof (intro conjI impI)
  assume h: "v = Num x \<and> 0 < x \<and> x < 10 ^ 21"
  then have x: "0 \<le> x" "x < 10 ^ 21" "v = Num x" "0 < x" by auto
  let ?n = "nat \<lfloor>x * 100 + 1 / 2\<rfloor>"
  show t: "textContent d (updateEyeDisplay h d v s)
          = ''-'' @ digits (?n div 100) @ ''.'' @ [digit (?n div 10 mod 10), digit (?n mod 10)]"
    using x by (simp add: updateEyeDisplay_text toFixed_2)
  show "is_minus_fixed2 (textContent d (updateEyeDisplay h d v s))"
    unfolding t by (rule minus_fixed2_digits) simp_all
  show "\<bar>real ?n / 100 - x\<bar> \<le> 1 / 200"
    using x(1) by (rule nearest_hundredth)
next
  assume "\<not> num_gt v (Num 0)"
  then show "textContent d (updateEyeDisplay h d v s) = ''0.00''"
    by (simp add: updateEyeDisplay_text)
next
  assume "wired s"
  then show "step h (SliderLeftInput v) s = updateEyeDisplay h DiopterLeftDisplay v (s\<lparr>leftDiopters := v\<rparr>)"
    by simp
next
  assume "wired s"
  then show "step h (SliderRightInput v) s = updateEyeDisplay h DiopterRightDisplay v (s\<lparr>rightDiopters := v\<rparr>)"
    by simp
qed

theorem updateEyeDisplay_format_witness:
  "(0::real) < 2.5 \<and> (2.5::real) < 10 ^ 21
   \<and> textContent DiopterLeftDisplay (updateEyeDisplay (host_with NoMediaDevices) DiopterLeftDisplay (Num 2.5) initial_page) = ''-2.50''
   \<and> \<not> num_gt (Num 0) (Num 0)
   \<and> textContent DiopterLeftDisplay (updateEyeDisplay (host_with NoMediaDevices) DiopterLeftDisplay (Num 0) initial_page) = ''0.00''"
proof -
  have n: "nat \<lfloor>(2.5::real) * 100 + 1 / 2\<rfloor> = 250" by simp
  have a: "textContent DiopterLeftDisplay (updateEyeDisplay (host_with NoMediaDevices) DiopterLeftDisplay (Num 2.5) initial_page) = ''-2.50''"
    using updateEyeDisplay_format [where v = "Num 2.5" and x = "2.5" and d = DiopterLeftDisplay and h = "host_with NoMediaDevices" and s = initial_page]
    by (simp add: n digits_small digit_def)
  have b: "textContent DiopterLeftDisplay (updateEyeDisplay (host_with NoMediaDevices) DiopterLeftDisplay (Num 0) initial_page) = ''0.00''"
    using updateEyeDisplay_format [where v = "Num 0" and d = DiopterLeftDisplay and h = "host_with NoMediaDevices" and s = initial_page]
    by simp
  show ?thesis using a b by simp
qed

section \<open>Properties of the render loop\<close>

lemma modify_video_keeps [simp]:
  "leftDiopters (modify_video i f s) = leftDiopters s"
  "rightDiopters (modify_video i f s) = rightDiopters s"
  "isDominantLeft (modify_video i f s) = isDominantLeft s"
  "frameCallbacks (modify_video i f s) = frameCallbacks s"
  "handleCounter (modify_video i f s) = handleCounter s"
  "canvases (modify_video i f s) = canvases s"
  by (simp_all add: modify_video_def)

lemma set_panel_children_keeps [simp]:
  "leftDiopters (set_panel_children p ns s) = leftDiopters s"
  "rightDiopters (set_panel_children p ns s) = rightDiopters s"
  "isDominantLeft (set_panel_children p ns s) = isDominantLeft s"
  "frameCallbacks (set_panel_children p ns s) = frameCallbacks s"
  "handleCounter (set_panel_children p ns s) = handleCounter s"
  "canvases (set_panel_children p ns s) = canvases s"
  "videos (set_panel_children p ns s) = videos s"
  by (cases p; simp add: set_panel_children_def)+

lemma setupPanel_keeps [simp]:
  "leftDiopters (setupPanel p n ic k s) = leftDiopters s"
  "rightDiopters (setupPanel p n ic k s) = rightDiopters s"
  "isDominantLeft (setupPanel p n ic k s) = isDominantLeft s"
  "frameCallbacks (setupPanel p n ic k s) = frameCallbacks s"
  "handleCounter (setupPanel p n ic k s) = handleCounter s"
  "canvases (setupPanel p n ic k s) = canvases s"
  by (simp_all add: setupPanel_def Let_def split: option.splits node.splits)

lemma handleVideoError_keeps [simp]:
  "leftDiopters (handleVideoError p n s) = leftDiopters s"
  "rightDiopters (handleVideoError p n s) = rightDiopters s"
  "isDominantLeft (handleVideoError p n s) = isDominantLeft s"
  "frameCallbacks (handleVideoError p n s) = frameCallbacks s"
  "handleCounter (handleVideoError p n s) = handleCounter s"
  by (simp_all add: handleVideoError_def)

lemma updateEyeDisplay_keeps [simp]:
  "leftDiopters (updateEyeDisplay h d v s) = leftDiopters s"
  "rightDiopters (updateEyeDisplay h d v s) = rightDiopters s"
  "isDominantLeft (updateEyeDisplay h d v s) = isDominantLeft s"
  "frameCallbacks (updateEyeDisplay h d v s) = frameCallbacks s"
  "handleCounter (updateEyeDisplay h d v s) = handleCounter s"
  by (cases d; simp add: updateEyeDisplay_def set_textContent_def)+

lemma applySimpleBlur_keeps [simp]:
  "leftDiopters (applySimpleBlur h v c b s) = leftDiopters s"
  "rightDiopters (applySimpleBlur h v c b s) = rightDiopters s"
  "isDominantLeft (applySimpleBlur h v c b s) = isDominantLeft s"
  "frameCallbacks (applySimpleBlur h v c b s) = frameCallbacks s"
  "handleCounter (applySimpleBlur h v c b s) = handleCounter s"
  by (simp_all add: applySimpleBlur_def)

lemma render_keeps [simp]:
  "leftDiopters (render h v c s) = leftDiopters s"
  "rightDiopters (render h v c s) = rightDiopters s"
  "isDominantLeft (render h v c s) = isDominantLeft s"
  by (simp_all add: render_def requestAnimationFrame_def Let_def)

lemma render_frames:
  "frameCallbacks (render h v c s) = frameCallbacks s @ [(handleCounter s + 1, Render v c)]"
  "handleCounter (render h v c s) = handleCounter s + 1"
  "animationFrameId (render h v c s) = Some (handleCounter s + 1)"
  by (simp_all add: render_def requestAnimationFrame_def Let_def)

lemma setupCanvas_keeps [simp]:
  "leftDiopters (setupCanvas h v s) = leftDiopters s"
  "rightDiopters (setupCanvas h v s) = rightDiopters s"
  "isDominantLeft (setupCanvas h v s) = isDominantLeft s"
  by (simp_all add: setupCanvas_def startBlurRender_def createCanvas_def
      requestAnimationFrame_def Let_def)

lemma setupCanvas_frames:
  "frameCallbacks (setupCanvas h v s) = frameCallbacks s
   \<or> (\<exists>cb. frameCallbacks (setupCanvas h v s) = frameCallbacks s @ [(handleCounter s + 1, cb)]
          \<and> handleCounter (setupCanvas h v s) = handleCounter s + 1)"
  "handleCounter s \<le> handleCounter (setupCanvas h v s)"
  "frameCallbacks (setupCanvas h v s) = frameCallbacks s \<longrightarrow> handleCounter (setupCanvas h v s) = handleCounter s"
  by (simp_all add: setupCanvas_def startBlurRender_def createCanvas_def render_frames
      requestAnimationFrame_def Let_def)


lemma grows_refl: "grows s s"
  by (simp add: grows_def)

lemma grows_same:
  "frameCallbacks s' = frameCallbacks s \<Longrightarrow> handleCounter s' = handleCounter s \<Longrightarrow> grows s s'"
  by (simp add: grows_def)

lemma grows_trans:
  assumes "grows a b" and "grows b c"
  shows "grows a c"
proof -
  obtain n1 where n1: "frameCallbacks b = frameCallbacks a @ n1" "distinct (map fst n1)"
      "\<forall>k \<in> set (map fst n1). handleCounter a < k \<and> k \<le> handleCounter b"
    using assms(1) unfolding grows_def by blast
  obtain n2 where n2: "frameCallbacks c = frameCallbacks b @ n2" "distinct (map fst n2)"
      "\<forall>k \<in> set (map fst n2). handleCounter b < k \<and> k \<le> handleCounter c"
    using assms(2) unfolding grows_def by blast
  have le: "handleCounter a \<le> handleCounter b" "handleCounter b \<le> handleCounter c"
    using assms unfolding grows_def by auto
  have "frameCallbacks c = frameCallbacks a @ (n1 @ n2)" using n1(1) n2(1) by simp
  moreover have "distinct (map fst (n1 @ n2))"
    using n1(2,3) n2(2,3) by fastforce
  moreover have "\<forall>k \<in> set (map fst (n1 @ n2)). handleCounter a < k \<and> k \<le> handleCounter c"
    using n1(3) n2(3) le by fastforce
  ultimately show ?thesis using le unfolding grows_def by (intro conjI exI [of _ "n1 @ n2"]) auto
qed

lemma grows_wf:
  assumes "grows s s'" and "handles_wf s"
  shows "handles_wf s'"
proof -
  obtain new where n: "frameCallbacks s' = frameCallbacks s @ new" "distinct (map fst new)"
      "\<forall>k \<in> set (map fst new). handleCounter s < k \<and> k \<le> handleCounter s'"
    using assms(1) unfolding grows_def by blast
  have le: "handleCounter s \<le> handleCounter s'" using assms(1) unfolding grows_def by simp
  have old: "\<forall>k \<in> set (map fst (frameCallbacks s)). k \<le> handleCounter s"
    using assms(2) unfolding handles_wf_def list_all_iff by auto
  have d: "distinct (map fst (frameCallbacks s))" using assms(2) unfolding handles_wf_def by simp
  have "distinct (map fst (frameCallbacks s @ new))"
    using d n(2,3) old by fastforce
  moreover have "list_all (\<lambda>(k, cb). k \<le> handleCounter s') (frameCallbacks s @ new)"
    using old n(3) le unfolding list_all_iff by fastforce
  ultimately show ?thesis unfolding handles_wf_def n(1) by simp
qed

lemma grows_pending:
  assumes "grows s s'" and "x \<in> set (frameCallbacks s)"
  shows "x \<in> set (frameCallbacks s')"
  using assms unfolding grows_def by auto

lemma grows_render: "grows s (render h v c s)"
  unfolding grows_def render_frames by simp

lemma grows_setupCanvas: "grows s (setupCanvas h v s)"
proof -
  consider "frameCallbacks (setupCanvas h v s) = frameCallbacks s"
    | cb where "frameCallbacks (setupCanvas h v s) = frameCallbacks s @ [(handleCounter s + 1, cb)]"
        "handleCounter (setupCanvas h v s) = handleCounter s + 1"
    using setupCanvas_frames(1) [of h v s] by blast
  then show ?thesis
  proof cases
    case 1
    then show ?thesis using setupCanvas_frames(3) [of h v s] by (simp add: grows_same)
  next
    case 2
    then show ?thesis unfolding grows_def by simp
  qed
qed

lemma grows_run_listener: "grows s (run_listener h v l s)"
proof (cases l)
  case SetupCanvas
  then show ?thesis by (simp add: grows_setupCanvas)
next
  case Fallback_video1_onloadeddata
  then show ?thesis by (simp add: grows_same)
next
  case Fallback_video1_onerror
  then show ?thesis by (simp add: grows_same)
next
  case Fallback_video2_onloadeddata
  then show ?thesis
    by (simp add: grows_def startBlurRender_def createCanvas_def render_frames Let_def)
next
  case Fallback_video2_onerror
  then show ?thesis by (simp add: grows_same)
qed

lemma grows_run_listeners: "grows s (run_listeners h v ls s)"
proof (induction ls arbitrary: s)
  case Nil
  show ?case by (simp add: grows_refl)
next
  case (Cons l ls)
  show ?case using grows_trans [OF grows_run_listener Cons.IH] by simp
qed

lemma grows_dispatch: "grows s (dispatch h v ev s)"
  by (simp add: dispatch_def grows_refl grows_run_listeners)

lemma grows_invoke: "grows s (invoke h cb s)"
  by (cases cb) (simp_all add: grows_render grows_setupCanvas)


lemma cancelAnimationFrame_keeps [simp]:
  "leftDiopters (cancelAnimationFrame k s) = leftDiopters s"
  "rightDiopters (cancelAnimationFrame k s) = rightDiopters s"
  "isDominantLeft (cancelAnimationFrame k s) = isDominantLeft s"
  "handleCounter (cancelAnimationFrame k s) = handleCounter s"
  by (simp_all add: cancelAnimationFrame_def)

lemma cancelAnimationFrame_set:
  "set (frameCallbacks (cancelAnimationFrame k s)) = {x \<in> set (frameCallbacks s). fst x \<noteq> k}"
  by (auto simp: cancelAnimationFrame_def)

lemma cancelAnimationFrame_wf:
  assumes "handles_wf s"
  shows "handles_wf (cancelAnimationFrame k s)"
proof -
  have "distinct (map fst (filter (\<lambda>(k', cb). k' \<noteq> k) (frameCallbacks s)))"
    using assms unfolding handles_wf_def by (simp add: distinct_map_filter)
  moreover have "list_all (\<lambda>(k, cb). k \<le> handleCounter s) (filter (\<lambda>(k', cb). k' \<noteq> k) (frameCallbacks s))"
    using assms unfolding handles_wf_def list_all_iff by auto
  ultimately show ?thesis by (simp add: handles_wf_def cancelAnimationFrame_def)
qed

lemma render_pendingI: "(k, Render v c) \<in> set (frameCallbacks s) \<Longrightarrow> render_pending s"
  unfolding render_pending_def list_ex_iff by force

lemma render_pendingE:
  assumes "render_pending s"
  obtains k v c where "(k, Render v c) \<in> set (frameCallbacks s)"
proof -
  obtain x where x: "x \<in> set (frameCallbacks s)" "is_render x"
    using assms unfolding render_pending_def list_ex_iff by blast
  obtain k cb where kc: "x = (k, cb)" by (cases x)
  obtain v c where "cb = Render v c" using x(2) kc by (cases cb) simp_all
  then show ?thesis using that x(1) kc by blast
qed

lemma invoke_keeps [simp]:
  "leftDiopters (invoke h cb s) = leftDiopters s"
  "rightDiopters (invoke h cb s) = rightDiopters s"
  "isDominantLeft (invoke h cb s) = isDominantLeft s"
  by (cases cb; simp)+

lemma runCallbacks_keeps [simp]:
  "leftDiopters (runCallbacks h ks s) = leftDiopters s"
  "rightDiopters (runCallbacks h ks s) = rightDiopters s"
  "isDominantLeft (runCallbacks h ks s) = isDominantLeft s"
  by (induction ks arbitrary: s; simp split: option.splits)+

lemma invoke_after_cancel_pending:
  assumes wf: "handles_wf s" and pend: "render_pending s"
    and cb: "map_of (frameCallbacks s) k = Some cb"
  shows "render_pending (invoke h cb (cancelAnimationFrame k s))"
proof -
  obtain k' v c where r: "(k', Render v c) \<in> set (frameCallbacks s)"
    using pend by (rule render_pendingE)
  show ?thesis
  proof (cases "k' = k")
    case True
    have "distinct (map fst (frameCallbacks s))" using wf by (simp add: handles_wf_def)
    then have "map_of (frameCallbacks s) k = Some (Render v c)"
      using r True by simp
    then have "cb = Render v c" using cb by simp
    then show ?thesis
      by (auto intro!: render_pendingI simp: render_frames)
  next
    case False
    then have "(k', Render v c) \<in> set (frameCallbacks (cancelAnimationFrame k s))"
      using r by (simp add: cancelAnimationFrame_set)
    then have "(k', Render v c) \<in> set (frameCallbacks (invoke h cb (cancelAnimationFrame k s)))"
      using grows_pending [OF grows_invoke] by blast
    then show ?thesis by (rule render_pendingI)
  qed
qed

lemma runCallbacks_streaming:
  assumes "streaming s"
  shows "streaming (runCallbacks h ks s)"
  using assms
proof (induction ks arbitrary: s)
  case Nil
  then show ?case by simp
next
  case (Cons k ks)
  show ?case
  proof (cases "map_of (frameCallbacks s) k")
    case None
    then show ?thesis using Cons by simp
  next
    case (Some cb)
    have wf: "handles_wf s" and pend: "render_pending s"
      using Cons.prems by (simp_all add: streaming_def)
    have "handles_wf (invoke h cb (cancelAnimationFrame k s))"
      using grows_wf [OF grows_invoke cancelAnimationFrame_wf [OF wf]] .
    moreover have "render_pending (invoke h cb (cancelAnimationFrame k s))"
      using invoke_after_cancel_pending [OF wf pend Some] .
    ultimately have "streaming (invoke h cb (cancelAnimationFrame k s))"
      by (simp add: streaming_def)
    then show ?thesis using Cons.IH Some by simp
  qed
qed

lemma streaming_same:
  "streaming s \<Longrightarrow> frameCallbacks s' = frameCallbacks s \<Longrightarrow> handleCounter s' = handleCounter s
     \<Longrightarrow> streaming s'"
  by (simp add: streaming_def handles_wf_def render_pending_def)

lemma streaming_grows:
  assumes "grows s s'" and "streaming s"
  shows "streaming s'"
proof -
  have "handles_wf s'" using grows_wf [OF assms(1)] assms(2) by (simp add: streaming_def)
  moreover have "render_pending s'"
  proof -
    obtain k v c where "(k, Render v c) \<in> set (frameCallbacks s)"
      using assms(2) unfolding streaming_def by (blast elim: render_pendingE)
    then have "(k, Render v c) \<in> set (frameCallbacks s')"
      by (rule grows_pending [OF assms(1)])
    then show ?thesis by (rule render_pendingI)
  qed
  ultimately show ?thesis by (simp add: streaming_def)
qed

lemma setDominantEye_keeps [simp]:
  "frameCallbacks (setDominantEye b s) = frameCallbacks s"
  "handleCounter (setDominantEye b s) = handleCounter s"
  by (simp_all add: setDominantEye_def updateBinocularVision_def)

lemma step_streaming:
  assumes "streaming s" and "e \<noteq> BeforeUnload"
  shows "streaming (step h e s)"
proof (cases e)
  case (SliderLeftInput v)
  then show ?thesis by (auto intro!: streaming_same [OF assms(1)])
next
  case (SliderRightInput v)
  then show ?thesis by (auto intro!: streaming_same [OF assms(1)])
next
  case DominantLeftClick
  then show ?thesis by (auto intro!: streaming_same [OF assms(1)])
next
  case DominantRightClick
  then show ?thesis by (auto intro!: streaming_same [OF assms(1)])
next
  case (MediaState v rs w ht)
  then show ?thesis by (auto intro!: streaming_same [OF assms(1)])
next
  case (MediaEvent v ev)
  then show ?thesis using streaming_grows [OF grows_dispatch assms(1)] by simp
next
  case AnimationFrame
  then show ?thesis using runCallbacks_streaming [OF assms(1)] by (simp add: animationFrame_def)
next
  case BeforeUnload
  then show ?thesis using assms(2) by simp
qed

lemma run_streaming:
  assumes "streaming s" and "BeforeUnload \<notin> set es"
  shows "streaming (run h es s)"
  using assms
proof (induction es arbitrary: s)
  case Nil
  then show ?case by simp
next
  case (Cons e es)
  then have "streaming (step h e s)" by (auto intro: step_streaming)
  then show ?case using Cons by simp
qed


lemma blur_reads_three_variables:
  assumes "leftDiopters s = leftDiopters s'" and "rightDiopters s = rightDiopters s'"
    and "isDominantLeft s = isDominantLeft s'"
  shows "calculateBinocularBlur s = calculateBinocularBlur s'"
  using assms by (simp add: calculateBinocularBlur_def weightedDiopters_def)

lemma run_listener_keeps [simp]:
  "leftDiopters (run_listener h v l s) = leftDiopters s"
  "rightDiopters (run_listener h v l s) = rightDiopters s"
  "isDominantLeft (run_listener h v l s) = isDominantLeft s"
  by (cases l; simp add: startBlurRender_def createCanvas_def Let_def)+

lemma run_listeners_keeps [simp]:
  "leftDiopters (run_listeners h v ls s) = leftDiopters s"
  "rightDiopters (run_listeners h v ls s) = rightDiopters s"
  "isDominantLeft (run_listeners h v ls s) = isDominantLeft s"
  by (induction ls arbitrary: s; simp)+

lemma beforeunload_keeps [simp]:
  "leftDiopters (beforeunload s) = leftDiopters s"
  "rightDiopters (beforeunload s) = rightDiopters s"
  "isDominantLeft (beforeunload s) = isDominantLeft s"
  by (simp_all add: beforeunload_def Let_def split: option.splits)

lemma step_keeps_blur:
  assumes "\<not> writes_blur_inputs e"
  shows "calculateBinocularBlur (step h e s) = calculateBinocularBlur s"
proof (rule blur_reads_three_variables)
  show "leftDiopters (step h e s) = leftDiopters s"
    using assms by (cases e) (simp_all add: dispatch_def animationFrame_def)
  show "rightDiopters (step h e s) = rightDiopters s"
    using assms by (cases e) (simp_all add: dispatch_def animationFrame_def)
  show "isDominantLeft (step h e s) = isDominantLeft s"
    using assms by (cases e) (simp_all add: dispatch_def animationFrame_def)
qed

lemma run_keeps_blur:
  assumes "list_all (\<lambda>e. \<not> writes_blur_inputs e) es"
  shows "calculateBinocularBlur (run h es s) = calculateBinocularBlur s"
  using assms by (induction es arbitrary: s) (simp_all add: step_keeps_blur)

lemma render_paints_blur:
  assumes "HAVE_CURRENT_DATA \<le> video_readyState s v" and "context2d h" and "c < length (canvases s)"
  shows "painted (canvases (render h v c s) ! c) = painted (canvases s ! c) @ [calculateBinocularBlur s]"
  using assms by (simp add: render_def applySimpleBlur_def requestAnimationFrame_def Let_def)

text \<open>
  Claim C5. The blur radius of a frame is a function of \<open>leftDiopters\<close>,
  \<open>rightDiopters\<close> and \<open>isDominantLeft\<close> alone: two states that agree on the three
  give the same \<open>calculateBinocularBlur\<close>, whatever else they hold. A render step leaves
  the three unchanged, so the next evaluation returns the same value; when the step
  draws, the radius it paints is that value; and no event other than the four control
  inputs changes the value, over any number of frames.
\<close>

theorem blur_radius_is_pure:
  "(leftDiopters s = leftDiopters s' \<and> rightDiopters s = rightDiopters s'
      \<and> isDominantLeft s = isDominantLeft s' \<longrightarrow>
      calculateBinocularBlur s = calculateBinocularBlur s')
   \<and> calculateBinocularBlur (render h v c s) = calculateBinocularBlur s
   \<and> (HAVE_CURRENT_DATA \<le> video_readyState s v \<and> context2d h \<and> c < length (canvases s) \<longrightarrow>
        painted (canvases (render h v c s) ! c) = painted (canvases s ! c) @ [calculateBinocularBlur s])
   \<and> (\<not> writes_blur_inputs e \<longrightarrow> calculateBinocularBlur (step h e s) = calculateBinocularBlur s)
   \<and> (list_all (\<lambda>e. \<not> writes_blur_inputs e) es \<longrightarrow>
        calculateBinocularBlur (run h es s) = calculateBinocularBlur s)"
proof (intro conjI impI)
  assume "leftDiopters s = leftDiopters s' \<and> rightDiopters s = rightDiopters s'
      \<and> isDominantLeft s = isDominantLeft s'"
  then show "calculateBinocularBlur s = calculateBinocularBlur s'"
    by (intro blur_reads_three_variables) simp_all
next
  show "calculateBinocularBlur (render h v c s) = calculateBinocularBlur s"
    by (intro blur_reads_three_variables) simp_all
next
  assume "HAVE_CURRENT_DATA \<le> video_readyState s v \<and> context2d h \<and> c < length (canvases s)"
  then show "painted (canvases (render h v c s) ! c) = painted (canvases s ! c) @ [calculateBinocularBlur s]"
    by (intro render_paints_blur) simp_all
next
  assume "\<not> writes_blur_inputs e"
  then show "calculateBinocularBlur (step h e s) = calculateBinocularBlur s"
    by (rule step_keeps_blur)
next
  assume "list_all (\<lambda>e. \<not> writes_blur_inputs e) es"
  then show "calculateBinocularBlur (run h es s) = calculateBinocularBlur s"
    by (rule run_keeps_blur)
qed

lemma render_gated_draw:
  assumes "video_readyState s v < HAVE_CURRENT_DATA"
  shows "canvases (render h v c s) = canvases s"
  using assms by (simp add: render_def requestAnimationFrame_def Let_def)

lemma startBlurRender_streaming:
  assumes "handles_wf s"
  shows "streaming (startBlurRender h v c s)"
proof -
  have "handles_wf (render h v c s)" using grows_wf [OF grows_render assms] .
  moreover have "render_pending (render h v c s)"
    by (rule render_pendingI [of "handleCounter s + 1" v c]) (simp add: render_frames)
  ultimately show ?thesis by (simp add: streaming_def startBlurRender_def)
qed

lemma beforeunload_cancels_render:
  "(handleCounter s + 1, cb) \<notin> set (frameCallbacks (beforeunload (render h v c s)))"
  by (auto simp: beforeunload_def Let_def render_frames cancelAnimationFrame_def split: option.splits)

lemma single_loop_frame:
  assumes "frameCallbacks s = [(k, Render v c)]"
  shows "frameCallbacks (step h AnimationFrame s) = [(handleCounter s + 1, Render v c)]
       \<and> animationFrameId (step h AnimationFrame s) = Some (handleCounter s + 1)"
  using assms by (simp add: animationFrame_def render_frames cancelAnimationFrame_def)

lemma single_loop_teardown:
  assumes "frameCallbacks s = [(k, Render v c)]" and "animationFrameId s = Some k" and "k \<noteq> 0"
  shows "frameCallbacks (step h BeforeUnload s) = []
       \<and> step h AnimationFrame (step h BeforeUnload s) = step h BeforeUnload s"
proof -
  have "frameCallbacks (beforeunload s) = []"
    using assms by (simp add: beforeunload_def Let_def cancelAnimationFrame_def split: option.splits)
  then show ?thesis by (simp add: animationFrame_def)
qed


lemmas eval_defs = fallback_streaming_def init_def host_with_def initial_page_def updateEyeDisplay_def set_textContent_def
      useFallbackVideo_def createVideoElement_def makeHiddenVideo_def modify_video_def Let_def
      FALLBACK_VIDEO_URL_def dispatch_def createCanvas_def video_videoWidth_def video_videoHeight_def
      video_readyState_def setupPanel_def set_panel_children_def panel_children_def
      startBlurRender_def render_def requestAnimationFrame_def applySimpleBlur_def HAVE_CURRENT_DATA_def
      calculateBinocularBlur_def weightedDiopters_def calculateBlur_def DOMINANT_WEIGHT_def

lemma fallback_streaming_facts:
  "frameCallbacks fallback_streaming = [(1, Render 1 0)]"
  "handleCounter fallback_streaming = 1"
  "animationFrameId fallback_streaming = Some 1"
  "video_readyState fallback_streaming 1 = 4"
  "canvases fallback_streaming = [\<lparr> canvas_width = 640, canvas_height = 360, painted = [Num 0] \<rparr>]"
  "panelCombined fallback_streaming = [CanvasNode 0, VideoNode 1, SourceIndicator False]"
  "sourceStatus fallback_streaming = ''Source: Sample Video''"
  by (simp_all add: eval_defs)


lemma fallback_streaming_inputs:
  "leftDiopters fallback_streaming = Num 0"
  "rightDiopters fallback_streaming = Num 0"
  "isDominantLeft fallback_streaming = True"
  by (simp_all add: eval_defs)

lemma fallback_streaming_is_streaming: "streaming fallback_streaming"
  by (simp add: streaming_def handles_wf_def render_pending_def fallback_streaming_facts)

theorem blur_radius_is_pure_witness:
  "leftDiopters fallback_streaming = leftDiopters initial_page
   \<and> rightDiopters fallback_streaming = rightDiopters initial_page
   \<and> isDominantLeft fallback_streaming = isDominantLeft initial_page
   \<and> calculateBinocularBlur fallback_streaming = calculateBinocularBlur initial_page
   \<and> HAVE_CURRENT_DATA \<le> video_readyState fallback_streaming 1
   \<and> context2d (host_with NoMediaDevices)
   \<and> 0 < length (canvases fallback_streaming)
   \<and> painted (canvases (render (host_with NoMediaDevices) 1 0 fallback_streaming) ! 0)
       = painted (canvases fallback_streaming ! 0) @ [calculateBinocularBlur fallback_streaming]
   \<and> \<not> writes_blur_inputs AnimationFrame
   \<and> calculateBinocularBlur (step (host_with NoMediaDevices) AnimationFrame fallback_streaming)
       = calculateBinocularBlur fallback_streaming
   \<and> list_all (\<lambda>e. \<not> writes_blur_inputs e) [AnimationFrame, MediaState 1 1 640 360, AnimationFrame]
   \<and> calculateBinocularBlur
         (run (host_with NoMediaDevices) [AnimationFrame, MediaState 1 1 640 360, AnimationFrame]
            fallback_streaming)
       = calculateBinocularBlur fallback_streaming"
proof -
  have a: "leftDiopters fallback_streaming = leftDiopters initial_page
      \<and> rightDiopters fallback_streaming = rightDiopters initial_page
      \<and> isDominantLeft fallback_streaming = isDominantLeft initial_page"
    by (simp add: fallback_streaming_inputs initial_page_def)
  have b: "HAVE_CURRENT_DATA \<le> video_readyState fallback_streaming 1
      \<and> context2d (host_with NoMediaDevices) \<and> 0 < length (canvases fallback_streaming)"
    using fallback_streaming_facts(4,5) by (simp add: HAVE_CURRENT_DATA_def host_with_def)
  have c: "\<not> writes_blur_inputs AnimationFrame" by simp
  have d: "list_all (\<lambda>e. \<not> writes_blur_inputs e) [AnimationFrame, MediaState 1 1 640 360, AnimationFrame]"
    by simp
  note T = blur_radius_is_pure [where s = fallback_streaming and s' = initial_page
      and h = "host_with NoMediaDevices" and v = 1 and c = 0 and e = AnimationFrame
      and es = "[AnimationFrame, MediaState 1 1 640 360, AnimationFrame]"]
  show ?thesis
    using T a b c d by blast
qed

lemma useFallbackVideo_frames:
  "frameCallbacks (useFallbackVideo s) = frameCallbacks s"
  "handleCounter (useFallbackVideo s) = handleCounter s"
  "canvases (useFallbackVideo s) = canvases s"
  by (simp_all add: useFallbackVideo_def createVideoElement_def makeHiddenVideo_def Let_def)

lemma handles_wf_same:
  "handles_wf s \<Longrightarrow> frameCallbacks s' = frameCallbacks s \<Longrightarrow> handleCounter s' = handleCounter s
     \<Longrightarrow> handles_wf s'"
  by (simp add: handles_wf_def)

lemma init_frames:
  "frameCallbacks (init h s) = frameCallbacks s"
  "handleCounter (init h s) = handleCounter s"
  by (simp_all add: init_def initCamera_def useFallbackVideo_frames createVideoElement_def Let_def
      split: mediaDevices.splits outcome.splits)

lemma runCallbacks_wf:
  assumes "handles_wf s"
  shows "handles_wf (runCallbacks h ks s)"
  using assms
proof (induction ks arbitrary: s)
  case Nil
  then show ?case by simp
next
  case (Cons k ks)
  show ?case
  proof (cases "map_of (frameCallbacks s) k")
    case None
    then show ?thesis using Cons by simp
  next
    case (Some cb)
    have "handles_wf (invoke h cb (cancelAnimationFrame k s))"
      using grows_wf [OF grows_invoke cancelAnimationFrame_wf [OF Cons.prems]] .
    then show ?thesis using Cons.IH Some by simp
  qed
qed

lemma beforeunload_wf:
  assumes "handles_wf s"
  shows "handles_wf (beforeunload s)"
proof -
  have c: "\<And>k. handles_wf (cancelAnimationFrame k s)"
    using assms by (rule cancelAnimationFrame_wf)
  show ?thesis
    using assms c
    by (auto simp: beforeunload_def Let_def handles_wf_def split: option.splits)
qed

lemma step_wf:
  assumes "handles_wf s"
  shows "handles_wf (step h e s)"
proof (cases e)
  case (SliderLeftInput v)
  then show ?thesis by (auto intro!: handles_wf_same [OF assms])
next
  case (SliderRightInput v)
  then show ?thesis by (auto intro!: handles_wf_same [OF assms])
next
  case DominantLeftClick
  then show ?thesis by (auto intro!: handles_wf_same [OF assms])
next
  case DominantRightClick
  then show ?thesis by (auto intro!: handles_wf_same [OF assms])
next
  case (MediaState v rs w ht)
  then show ?thesis by (auto intro!: handles_wf_same [OF assms])
next
  case (MediaEvent v ev)
  then show ?thesis using grows_wf [OF grows_dispatch assms] by simp
next
  case AnimationFrame
  then show ?thesis using runCallbacks_wf [OF assms] by (simp add: animationFrame_def)
next
  case BeforeUnload
  then show ?thesis using beforeunload_wf [OF assms] by simp
qed

lemma run_wf:
  assumes "handles_wf s"
  shows "handles_wf (run h es s)"
  using assms by (induction es arbitrary: s) (simp_all add: step_wf)

lemma reachable_wf: "handles_wf (run h es (init h initial_page))"
proof -
  have "handles_wf initial_page" by (simp add: handles_wf_def initial_page_def)
  then have "handles_wf (init h initial_page)"
    by (rule handles_wf_same) (simp_all add: init_frames)
  then show ?thesis by (rule run_wf)
qed

text \<open>
  Claim C6. Every execution of \<open>render\<close> schedules itself again and stores the new
  handle, whatever the video's \<open>readyState\<close>; below \<open>HAVE_CURRENT_DATA\<close> it only skips
  the drawing. Once the loop is started, a render callback stays scheduled through
  every event other than page teardown, over any sequence of such events. The
  \<open>beforeunload\<close> listener cancels the callback that the last render scheduled; with
  one loop running nothing is left scheduled and later frames do nothing. The handles
  of the callback list are well-formed in every state reached from the initial page.
\<close>

theorem render_loop_never_stops_itself:
  "animationFrameId (render h v c s) = Some (handleCounter s + 1)
   \<and> frameCallbacks (render h v c s) = frameCallbacks s @ [(handleCounter s + 1, Render v c)]
   \<and> (video_readyState s v < HAVE_CURRENT_DATA \<longrightarrow> canvases (render h v c s) = canvases s)
   \<and> (handles_wf s \<longrightarrow> streaming (startBlurRender h v c s))
   \<and> (streaming s \<and> e \<noteq> BeforeUnload \<longrightarrow> streaming (step h e s))
   \<and> (streaming s \<and> BeforeUnload \<notin> set es \<longrightarrow> streaming (run h es s))
   \<and> (handleCounter s + 1, cb) \<notin> set (frameCallbacks (beforeunload (render h v c s)))
   \<and> (frameCallbacks s = [(k, Render v c)] \<and> animationFrameId s = Some k \<and> k \<noteq> 0 \<longrightarrow>
        frameCallbacks (step h BeforeUnload s) = []
        \<and> step h AnimationFrame (step h BeforeUnload s) = step h BeforeUnload s)
   \<and> handles_wf (run h es (init h initial_page))"
proof (intro conjI impI)
  show "handles_wf (run h es (init h initial_page))"
    by (rule reachable_wf)
  show "animationFrameId (render h v c s) = Some (handleCounter s + 1)"
    by (rule render_frames)
  show "frameCallbacks (render h v c s) = frameCallbacks s @ [(handleCounter s + 1, Render v c)]"
    by (rule render_frames)
  show "(handleCounter s + 1, cb) \<notin> set (frameCallbacks (beforeunload (render h v c s)))"
    by (rule beforeunload_cancels_render)
next
  assume "video_readyState s v < HAVE_CURRENT_DATA"
  then show "canvases (render h v c s) = canvases s" by (rule render_gated_draw)
next
  assume "handles_wf s"
  then show "streaming (startBlurRender h v c s)" by (rule startBlurRender_streaming)
next
  assume "streaming s \<and> e \<noteq> BeforeUnload"
  then show "streaming (step h e s)" by (intro step_streaming) simp_all
next
  assume "streaming s \<and> BeforeUnload \<notin> set es"
  then show "streaming (run h es s)" by (intro run_streaming) simp_all
next
  assume a: "frameCallbacks s = [(k, Render v c)] \<and> animationFrameId s = Some k \<and> k \<noteq> 0"
  then have t: "frameCallbacks (step h BeforeUnload s) = []
       \<and> step h AnimationFrame (step h BeforeUnload s) = step h BeforeUnload s"
    by (intro single_loop_teardown [of s k v c]) simp_all
  show "frameCallbacks (step h BeforeUnload s) = []" using t by simp
  show "step h AnimationFrame (step h BeforeUnload s) = step h BeforeUnload s" using t by simp
qed

theorem render_loop_never_stops_itself_witness:
  "video_readyState (step (host_with NoMediaDevices) (MediaState 1 1 640 360) fallback_streaming) 1
     < HAVE_CURRENT_DATA
   \<and> canvases (render (host_with NoMediaDevices) 1 0
         (step (host_with NoMediaDevices) (MediaState 1 1 640 360) fallback_streaming))
       = canvases (step (host_with NoMediaDevices) (MediaState 1 1 640 360) fallback_streaming)
   \<and> frameCallbacks (render (host_with NoMediaDevices) 1 0
         (step (host_with NoMediaDevices) (MediaState 1 1 640 360) fallback_streaming))
       = [(1, Render 1 0), (2, Render 1 0)]
   \<and> handles_wf fallback_streaming
   \<and> streaming (startBlurRender (host_with NoMediaDevices) 1 0 fallback_streaming)
   \<and> streaming fallback_streaming
   \<and> AnimationFrame \<noteq> BeforeUnload
   \<and> streaming (step (host_with NoMediaDevices) AnimationFrame fallback_streaming)
   \<and> BeforeUnload \<notin> set [AnimationFrame, SliderLeftInput (Num 2), MediaState 1 1 640 360, AnimationFrame]
   \<and> streaming (run (host_with NoMediaDevices)
        [AnimationFrame, SliderLeftInput (Num 2), MediaState 1 1 640 360, AnimationFrame]
        fallback_streaming)
   \<and> frameCallbacks fallback_streaming = [(1, Render 1 0)]
   \<and> animationFrameId fallback_streaming = Some 1
   \<and> frameCallbacks (step (host_with NoMediaDevices) BeforeUnload fallback_streaming) = []"
proof -
  let ?H = "host_with NoMediaDevices"
  let ?n = "step ?H (MediaState 1 1 640 360) fallback_streaming"
  have st: "streaming fallback_streaming" by (rule fallback_streaming_is_streaming)
  then have wf: "handles_wf fallback_streaming" by (simp add: streaming_def)
  have nr: "video_readyState ?n 1 < HAVE_CURRENT_DATA"
    by (simp add: eval_defs)
  have fc: "frameCallbacks ?n = [(1, Render 1 0)]" "handleCounter ?n = 1"
    by (simp_all add: fallback_streaming_facts)
  have ev: "AnimationFrame \<noteq> BeforeUnload"
    "BeforeUnload \<notin> set [AnimationFrame, SliderLeftInput (Num 2), MediaState 1 1 640 360, AnimationFrame]"
    by simp_all
  have one: "frameCallbacks fallback_streaming = [(1, Render 1 0)]
      \<and> animationFrameId fallback_streaming = Some 1 \<and> (1::nat) \<noteq> 0"
    by (simp add: fallback_streaming_facts)
  note T1 = render_loop_never_stops_itself [where s = ?n and h = ?H and v = 1 and c = 0
      and e = AnimationFrame and es = "[]" and k = 0]
  note T2 = render_loop_never_stops_itself [where s = fallback_streaming and h = ?H and v = 1 and c = 0
      and e = AnimationFrame and k = 1
      and es = "[AnimationFrame, SliderLeftInput (Num 2), MediaState 1 1 640 360, AnimationFrame]"]
  have r1: "canvases (render ?H 1 0 ?n) = canvases ?n"
    using T1 nr by blast
  have r2: "frameCallbacks (render ?H 1 0 ?n) = [(1, Render 1 0), (2, Render 1 0)]"
    using T1 fc by simp
  have r3: "streaming (startBlurRender ?H 1 0 fallback_streaming)"
    using T2 wf by blast
  have r4: "streaming (step ?H AnimationFrame fallback_streaming)"
    using T2 st ev(1) by blast
  have r5: "streaming (run ?H [AnimationFrame, SliderLeftInput (Num 2), MediaState 1 1 640 360, AnimationFrame]
        fallback_streaming)"
    using T2 st ev(2) by blast
  have r6: "frameCallbacks (step ?H BeforeUnload fallback_streaming) = []"
    using T2 one by blast
  show ?thesis
    using nr r1 r2 wf r3 st ev r4 r5 one r6 by blast
qed

section \<open>Properties of source selection\<close>

lemma updateEyeDisplay_fields [simp]:
  "mediaStream (updateEyeDisplay h d v s) = mediaStream s"
  "videos (updateEyeDisplay h d v s) = videos s"
  "canvases (updateEyeDisplay h d v s) = canvases s"
  "panelCombined (updateEyeDisplay h d v s) = panelCombined s"
  "getUserMediaCalls (updateEyeDisplay h d v s) = getUserMediaCalls s"
  "sourceStatus (updateEyeDisplay h d v s) = sourceStatus s"
  by (cases d; simp add: updateEyeDisplay_def set_textContent_def)+

lemma useFallbackVideo_result:
  "sourceStatus (useFallbackVideo s) = ''Source: Sample Video''"
  "mediaStream (useFallbackVideo s) = mediaStream s"
  "getUserMediaCalls (useFallbackVideo s) = getUserMediaCalls s"
  "panelCombined (useFallbackVideo s) = panelCombined s @ [VideoNode (Suc (length (videos s)))]"
  "videos (useFallbackVideo s) = videos s @
      [\<lparr> srcObject = None, src = FALLBACK_VIDEO_URL, readyState = 0, videoWidth = 0,
         videoHeight = 0, hiddenStyle = False,
         listeners = [(Loadeddata, Fallback_video1_onloadeddata), (Error, Fallback_video1_onerror)] \<rparr>,
       \<lparr> srcObject = None, src = FALLBACK_VIDEO_URL, readyState = 0, videoWidth = 0,
         videoHeight = 0, hiddenStyle = True,
         listeners = [(Loadeddata, Fallback_video2_onloadeddata), (Error, Fallback_video2_onerror)] \<rparr>]"
  by (simp_all add: useFallbackVideo_def createVideoElement_def makeHiddenVideo_def
      modify_video_def Let_def nth_append list_update_append)


lemma init_fails:
  assumes "acquisition_fails (mediaDevices h)"
  shows "\<exists>s0. init h s = useFallbackVideo s0 \<and> mediaStream s0 = mediaStream s \<and> videos s0 = videos s
          \<and> panelCombined s0 = panelCombined s
          \<and> getUserMediaCalls s0 \<le> getUserMediaCalls s + 1
          \<and> frameCallbacks s0 = frameCallbacks s \<and> handleCounter s0 = handleCounter s
          \<and> canvases s0 = canvases s"
proof -
  define s3 where "s3 = (updateEyeDisplay h DiopterRightDisplay (Num 0)
                          (updateEyeDisplay h DiopterLeftDisplay (Num 0) s))\<lparr>wired := True\<rparr>"
  show ?thesis
  proof (cases "mediaDevices h")
    case NoMediaDevices
    then have "init h s = useFallbackVideo s3" by (simp add: init_def Let_def s3_def)
    then show ?thesis by (intro exI [of _ s3]) (simp add: s3_def)
  next
    case NoGetUserMedia
    then have "init h s = useFallbackVideo s3" by (simp add: init_def Let_def s3_def)
    then show ?thesis by (intro exI [of _ s3]) (simp add: s3_def)
  next
    case (GetUserMedia outcome)
    then obtain err where "outcome = Rejected err"
      using assms by (cases outcome) simp_all
    then have "init h s = useFallbackVideo (s3\<lparr>getUserMediaCalls := getUserMediaCalls s3 + 1\<rparr>)"
      using GetUserMedia by (simp add: init_def initCamera_def Let_def s3_def)
    then show ?thesis
      by (intro exI [of _ "s3\<lparr>getUserMediaCalls := getUserMediaCalls s3 + 1\<rparr>"]) (simp add: s3_def)
  qed
qed

lemma getUserMediaCalls_dom [simp]:
  "getUserMediaCalls (modify_video i f s) = getUserMediaCalls s"
  "getUserMediaCalls (set_panel_children p ns s) = getUserMediaCalls s"
  "getUserMediaCalls (setupPanel p n ic k s) = getUserMediaCalls s"
  "getUserMediaCalls (handleVideoError p nm s) = getUserMediaCalls s"
  "getUserMediaCalls (applySimpleBlur h v c b s) = getUserMediaCalls s"
  "getUserMediaCalls (cancelAnimationFrame j s) = getUserMediaCalls s"
  "getUserMediaCalls (setDominantEye isLeft s) = getUserMediaCalls s"
  by (simp_all add: modify_video_def set_panel_children_def setupPanel_def handleVideoError_def
      applySimpleBlur_def cancelAnimationFrame_def setDominantEye_def updateBinocularVision_def
      Let_def split: option.splits node.splits panel_id.splits)

lemma getUserMediaCalls_render [simp]:
  "getUserMediaCalls (render h v c s) = getUserMediaCalls s"
  by (simp add: render_def requestAnimationFrame_def Let_def)

lemma getUserMediaCalls_setupCanvas [simp]:
  "getUserMediaCalls (setupCanvas h v s) = getUserMediaCalls s"
  by (simp add: setupCanvas_def startBlurRender_def createCanvas_def requestAnimationFrame_def Let_def)

lemma getUserMediaCalls_run_listener [simp]:
  "getUserMediaCalls (run_listener h v l s) = getUserMediaCalls s"
  by (cases l) (simp_all add: startBlurRender_def createCanvas_def Let_def)

lemma getUserMediaCalls_run_listeners [simp]:
  "getUserMediaCalls (run_listeners h v ls s) = getUserMediaCalls s"
  by (induction ls arbitrary: s) simp_all

lemma getUserMediaCalls_invoke [simp]:
  "getUserMediaCalls (invoke h cb s) = getUserMediaCalls s"
  by (cases cb) simp_all

lemma getUserMediaCalls_runCallbacks [simp]:
  "getUserMediaCalls (runCallbacks h ks s) = getUserMediaCalls s"
  by (induction ks arbitrary: s) (simp_all split: option.splits)

lemma getUserMediaCalls_step:
  "getUserMediaCalls (step h e s) = getUserMediaCalls s"
  by (cases e) (simp_all add: dispatch_def animationFrame_def beforeunload_def Let_def
      split: option.splits)

lemma getUserMediaCalls_run:
  "getUserMediaCalls (run h es s) = getUserMediaCalls s"
  by (induction es arbitrary: s) (simp_all add: getUserMediaCalls_step)

text \<open>
  Claim C7. When camera acquisition fails (the promise of \<open>getUserMedia\<close> is rejected,
  or the interface is absent), \<open>init\<close> ends in \<open>useFallbackVideo\<close>: the status label
  reads \<open>Source: Sample Video\<close> and not the camera text, no stream is held, the two
  video elements created both load the bundled sample video, and \<open>getUserMedia\<close> has
  been called at most once and is not called again by any later event. When the hidden
  one of the two videos fires \<open>loadeddata\<close>, the render loop starts on that video.
\<close>

theorem camera_failure_falls_back:
  assumes "acquisition_fails (mediaDevices h)"
  shows "sourceStatus (init h s) = ''Source: Sample Video''
       \<and> sourceStatus (init h s) \<noteq> ''Source: Device Camera''
       \<and> mediaStream (init h s) = mediaStream s
       \<and> getUserMediaCalls (init h s) \<le> getUserMediaCalls s + 1
       \<and> panelCombined (init h s) = panelCombined s @ [VideoNode (Suc (length (videos s)))]
       \<and> videos (init h s) = videos s @
            [\<lparr> srcObject = None, src = FALLBACK_VIDEO_URL, readyState = 0, videoWidth = 0,
               videoHeight = 0, hiddenStyle = False,
               listeners = [(Loadeddata, Fallback_video1_onloadeddata), (Error, Fallback_video1_onerror)] \<rparr>,
             \<lparr> srcObject = None, src = FALLBACK_VIDEO_URL, readyState = 0, videoWidth = 0,
               videoHeight = 0, hiddenStyle = True,
               listeners = [(Loadeddata, Fallback_video2_onloadeddata), (Error, Fallback_video2_onerror)] \<rparr>]
       \<and> getUserMediaCalls (run h es (init h s)) = getUserMediaCalls (init h s)
       \<and> frameCallbacks (step h (MediaEvent (Suc (length (videos s))) Loadeddata) (init h s))
           = frameCallbacks s
             @ [(handleCounter s + 1, Render (Suc (length (videos s))) (length (canvases s)))]"
proof -
  obtain s0 where s0: "init h s = useFallbackVideo s0" "mediaStream s0 = mediaStream s"
      "videos s0 = videos s" "panelCombined s0 = panelCombined s"
      "getUserMediaCalls s0 \<le> getUserMediaCalls s + 1"
      "frameCallbacks s0 = frameCallbacks s" "handleCounter s0 = handleCounter s"
      "canvases s0 = canvases s"
    using init_fails [OF assms] by blast
  have state: "sourceStatus (init h s) = ''Source: Sample Video''
       \<and> sourceStatus (init h s) \<noteq> ''Source: Device Camera''
       \<and> mediaStream (init h s) = mediaStream s
       \<and> getUserMediaCalls (init h s) \<le> getUserMediaCalls s + 1
       \<and> panelCombined (init h s) = panelCombined s @ [VideoNode (Suc (length (videos s)))]
       \<and> videos (init h s) = videos s @
            [\<lparr> srcObject = None, src = FALLBACK_VIDEO_URL, readyState = 0, videoWidth = 0,
               videoHeight = 0, hiddenStyle = False,
               listeners = [(Loadeddata, Fallback_video1_onloadeddata), (Error, Fallback_video1_onerror)] \<rparr>,
             \<lparr> srcObject = None, src = FALLBACK_VIDEO_URL, readyState = 0, videoWidth = 0,
               videoHeight = 0, hiddenStyle = True,
               listeners = [(Loadeddata, Fallback_video2_onloadeddata), (Error, Fallback_video2_onerror)] \<rparr>]"
    unfolding s0(1) using s0(2-5) by (simp add: useFallbackVideo_result)
  have later: "getUserMediaCalls (run h es (init h s)) = getUserMediaCalls (init h s)"
    by (rule getUserMediaCalls_run)
  have loop: "frameCallbacks (step h (MediaEvent (Suc (length (videos s))) Loadeddata) (init h s))
           = frameCallbacks s
             @ [(handleCounter s + 1, Render (Suc (length (videos s))) (length (canvases s)))]"
    unfolding s0(1)
    by (simp add: dispatch_def useFallbackVideo_result useFallbackVideo_frames s0 createCanvas_def
        startBlurRender_def render_frames Let_def nth_append)
  show ?thesis using state later loop by simp
qed

theorem camera_failure_falls_back_witness:
  "acquisition_fails (mediaDevices (host_with (GetUserMedia (Rejected ''NotAllowedError''))))
   \<and> sourceStatus (init (host_with (GetUserMedia (Rejected ''NotAllowedError''))) initial_page)
       = ''Source: Sample Video''
   \<and> map src (videos (init (host_with (GetUserMedia (Rejected ''NotAllowedError''))) initial_page))
       = [''./14903546_3840_2160_25fps.mp4'', ''./14903546_3840_2160_25fps.mp4'']
   \<and> getUserMediaCalls (init (host_with (GetUserMedia (Rejected ''NotAllowedError''))) initial_page) \<le> 1"
proof -
  have f: "acquisition_fails (mediaDevices (host_with (GetUserMedia (Rejected ''NotAllowedError''))))"
    by (simp add: host_with_def)
  show ?thesis
    using f camera_failure_falls_back [OF f, of initial_page]
    by (simp add: initial_page_def FALLBACK_VIDEO_URL_def)
qed

end
